theory Spec2Isabelle
  imports Main "HOL-Library.Char_ord" "HOL-Library.List_Lexorder" "HOL-Library.Multiset"
begin

section \<open>Python strings\<close>

text \<open>
  A Python \<open>str\<close> is modelled as a \<open>string\<close> whose characters are the code points
  0..255. Strings are compared as Python compares them: lexicographically by code point
  (the orders of \<open>Char_ord\<close> and \<open>List_Lexorder\<close>).

  \<open>isspace\<close> is \<open>str.isspace\<close> on one character: in the range 0..255 Python's
  whitespace is TAB, LF, VT, FF, CR, the separators FS, GS, RS, US, the space, NEL
  (0x85) and the no-break space (0xA0).
\<close>

definition isspace :: "char \<Rightarrow> bool" where
  "isspace c = ((of_char c :: nat) \<in> set [9, 10, 11, 12, 13, 28, 29, 30, 31, 32, 133, 160])"

text \<open>\<open>line.strip()\<close>: leading and trailing whitespace removed.\<close>

definition strip :: "string \<Rightarrow> string" where
  "strip s = rev (dropWhile isspace (rev (dropWhile isspace s)))"

text \<open>
  \<open>response.lower()\<close>: in the range 0..255 the cased characters with a lowercase
  partner are A..Z and 0xC0..0xDE without the multiplication sign 0xD7; the partner is
  32 code points higher.
\<close>

definition lower_char :: "char \<Rightarrow> char" where
  "lower_char c =
     (let n = (of_char c :: nat)
      in if (65 \<le> n \<and> n \<le> 90) \<or> (192 \<le> n \<and> n \<le> 222 \<and> n \<noteq> 215)
         then char_of (n + 32) else c)"

definition lower :: "string \<Rightarrow> string" where
  "lower s = map lower_char s"

text \<open>
  Truthiness of an optional command-line string (\<open>if args.user_email:\<close>): \<open>None\<close>
  and the empty string are false.
\<close>

fun truthy :: "string option \<Rightarrow> bool" where
  "truthy None = False"
| "truthy (Some s) = (s \<noteq> [])"

section \<open>Process termination\<close>

text \<open>
  \<open>sys.exit(n)\<close> ends the process with status \<open>n\<close>. A function that may call it
  returns \<open>exit + 'a\<close>.
\<close>

datatype exit = SysExit int

section \<open>Project source: the file\<close>

text \<open>
  Iterating over a text file yields its lines, each with its terminating newline (the
  last line may lack one). The content is the decoded text, newlines already translated
  to LF.
\<close>

fun file_lines :: "string \<Rightarrow> string list" where
  "file_lines [] = []"
| "file_lines (c # cs) =
     (if c = CHR 0x0A then [c] # file_lines cs
      else (case file_lines cs of [] \<Rightarrow> [[c]] | l # ls \<Rightarrow> (c # l) # ls))"

text \<open>
  The loop of \<open>get_projects_from_file\<close> (grant-viewer-access.py, lines 229-232), with
  the list \<open>projects\<close> as accumulator.
\<close>

fun read_projects :: "string list \<Rightarrow> string list \<Rightarrow> string list" where
  "read_projects [] projects = projects"
| "read_projects (line # rest) projects =
     (let project_id = strip line
      in if project_id \<noteq> [] then read_projects rest (projects @ [project_id])
         else read_projects rest projects)"

text \<open>
  The file system is a map from file names to contents; a name outside its domain
  raises \<open>FileNotFoundError\<close>, which the function turns into \<open>sys.exit(1)\<close>.
\<close>

definition get_projects_from_file :: "(string \<rightharpoonup> string) \<Rightarrow> string \<Rightarrow> exit + string list" where
  "get_projects_from_file fs filename =
     (case fs filename of
        None \<Rightarrow> Inl (SysExit 1)
      | Some content \<Rightarrow> Inr (read_projects (file_lines content) []))"

section \<open>Project source: the remote listing\<close>

text \<open>
  Python exceptions that the two scripts can meet: an error of the API client
  (\<open>HttpError\<close>; its text is abstracted to one constant), a missing dictionary key, an
  invalid regular expression.
\<close>

datatype exn = HttpError | KeyError string | ReError

fun str_exn :: "exn \<Rightarrow> string" where
  "str_exn HttpError = ''HttpError''"
| "str_exn (KeyError k) = [CHR 0x27] @ k @ [CHR 0x27]"
| "str_exn ReError = ''re.error''"

text \<open>
  A project resource and a page of the listing, as the API returns them: dictionaries
  whose keys may be absent.
\<close>

record project =
  lifecycleState :: "string option"
  projectId :: "string option"
  project_name :: "string option"
  projectNumber :: "string option"

record response =
  response_projects :: "project list option"
  nextPageToken :: "string option"

text \<open>
  A listing request is identified by its page token (\<open>None\<close> for the first page). The
  remote endpoint maps a request to what \<open>request.execute()\<close> returns or raises.
\<close>

datatype request = ListRequest "string option"

type_synonym listing = "request \<Rightarrow> exn + response"

text \<open>
  The client library's \<open>list_next\<close>: no further request when the token of the
  previous response is absent or empty.
\<close>

definition list_next :: "response \<Rightarrow> request option" where
  "list_next previous_response =
     (case nextPageToken previous_response of
        None \<Rightarrow> None
      | Some t \<Rightarrow> if t = [] then None else Some (ListRequest (Some t)))"

text \<open>
  The inner loop of the granter's \<open>get_all_projects\<close> (grant-viewer-access.py, lines
  207-209) over one page.
\<close>

fun collect_active :: "project list \<Rightarrow> string list \<Rightarrow> exn + string list" where
  "collect_active [] projects = Inr projects"
| "collect_active (p # rest) projects =
     (case lifecycleState p of
        None \<Rightarrow> Inl (KeyError ''lifecycleState'')
      | Some st \<Rightarrow>
          if st = ''ACTIVE''
          then (case projectId p of
                  None \<Rightarrow> Inl (KeyError ''projectId'')
                | Some i \<Rightarrow> collect_active rest (projects @ [i]))
          else collect_active rest projects)"

text \<open>
  The \<open>while request is not None\<close> loop (lines 204-214). An endpoint that hands out a
  continuation token for ever keeps the loop running: the result is then \<open>None\<close>.
\<close>

partial_function (option) list_pages ::
  "listing \<Rightarrow> request \<Rightarrow> string list \<Rightarrow> (exn + string list) option" where
  "list_pages srv req projects =
     (case srv req of
        Inl ex \<Rightarrow> Some (Inl ex)
      | Inr resp \<Rightarrow>
          (case (case response_projects resp of
                   None \<Rightarrow> Inr projects
                 | Some ps \<Rightarrow> collect_active ps projects) of
             Inl ex \<Rightarrow> Some (Inl ex)
           | Inr projects' \<Rightarrow>
               (case nextPageToken resp of
                  None \<Rightarrow> Some (Inr projects')
                | Some t \<Rightarrow>
                    (case list_next resp of
                       None \<Rightarrow> Some (Inr projects')
                     | Some req' \<Rightarrow> list_pages srv req' projects'))))"

text \<open>
  \<open>get_all_projects\<close> of grant-viewer-access.py: any exception of the listing ends the
  process with status 1; otherwise the identifiers are returned sorted.
\<close>

definition get_all_projects :: "listing \<Rightarrow> (exit + string list) option" where
  "get_all_projects srv =
     (case list_pages srv (ListRequest None) [] of
        None \<Rightarrow> None
      | Some (Inl ex) \<Rightarrow> Some (Inl (SysExit 1))
      | Some (Inr projects) \<Rightarrow> Some (Inr (sort projects)))"

text \<open>
  The lister (list-projects.py) collects a dictionary per active project; its keys
  \<open>id\<close>, \<open>name\<close> and \<open>number\<close> are the fields below.
\<close>

record project_info =
  info_id :: string
  info_name :: string
  info_number :: string

fun collect_active_info :: "project list \<Rightarrow> project_info list \<Rightarrow> exn + project_info list" where
  "collect_active_info [] projects = Inr projects"
| "collect_active_info (p # rest) projects =
     (case lifecycleState p of
        None \<Rightarrow> Inl (KeyError ''lifecycleState'')
      | Some st \<Rightarrow>
          if st = ''ACTIVE''
          then (case projectId p of
                  None \<Rightarrow> Inl (KeyError ''projectId'')
                | Some i \<Rightarrow>
                    collect_active_info rest
                      (projects @
                         [\<lparr>info_id = i,
                           info_name = (case project_name p of None \<Rightarrow> ''UNNAMED'' | Some n \<Rightarrow> n),
                           info_number = (case projectNumber p of None \<Rightarrow> ''N/A'' | Some n \<Rightarrow> n)\<rparr>]))
          else collect_active_info rest projects)"

partial_function (option) list_pages_info ::
  "listing \<Rightarrow> request \<Rightarrow> project_info list \<Rightarrow> (exn + project_info list) option" where
  "list_pages_info srv req projects =
     (case srv req of
        Inl ex \<Rightarrow> Some (Inl ex)
      | Inr resp \<Rightarrow>
          (case (case response_projects resp of
                   None \<Rightarrow> Inr projects
                 | Some ps \<Rightarrow> collect_active_info ps projects) of
             Inl ex \<Rightarrow> Some (Inl ex)
           | Inr projects' \<Rightarrow>
               (case nextPageToken resp of
                  None \<Rightarrow> Some (Inr projects')
                | Some t \<Rightarrow>
                    (case list_next resp of
                       None \<Rightarrow> Some (Inr projects')
                     | Some req' \<Rightarrow> list_pages_info srv req' projects'))))"

text \<open>
  \<open>get_all_projects\<close> of list-projects.py. \<open>credentials_found\<close> tells whether
  \<open>google.auth.default()\<close> returned; the result is sorted by the key \<open>id\<close>, and
  Python's sort is stable, as \<open>sort_key\<close> is.
\<close>

definition lister_get_all_projects :: "bool \<Rightarrow> listing \<Rightarrow> (exit + project_info list) option" where
  "lister_get_all_projects credentials_found srv =
     (if \<not> credentials_found then Some (Inl (SysExit 1))
      else case list_pages_info srv (ListRequest None) [] of
             None \<Rightarrow> None
           | Some (Inl ex) \<Rightarrow> Some (Inl (SysExit 1))
           | Some (Inr projects) \<Rightarrow> Some (Inr (sort_key info_id projects)))"

section \<open>Pattern filter (list-projects.py)\<close>

text \<open>
  The regular-expression engine is a parameter: \<open>re_search pattern s\<close> is
  \<open>Some True\<close> when \<open>re.search(pattern, s, re.IGNORECASE)\<close> finds a match,
  \<open>Some False\<close> when it finds none, and \<open>None\<close> when it raises \<open>re.error\<close>.
\<close>

type_synonym regex_engine = "string \<Rightarrow> string \<Rightarrow> bool option"

text \<open>
  The loop of \<open>filter_projects\<close> (lines 131-146) with its two accumulators. A pattern
  is consulted only when it is truthy (\<open>if exclude_pattern:\<close>).
\<close>

fun filter_loop ::
  "regex_engine \<Rightarrow> string option \<Rightarrow> string option \<Rightarrow> project_info list \<Rightarrow>
   project_info list \<Rightarrow> project_info list \<Rightarrow> exn + (project_info list \<times> project_info list)" where
  "filter_loop re_search include_pattern exclude_pattern [] filtered excluded =
     Inr (filtered, excluded)"
| "filter_loop re_search include_pattern exclude_pattern (p # rest) filtered excluded =
     (let project_id = info_id p;
          check_include =
            (if truthy include_pattern
             then (case re_search (the include_pattern) project_id of
                     None \<Rightarrow> Inl ReError
                   | Some m \<Rightarrow>
                       if \<not> m
                       then filter_loop re_search include_pattern exclude_pattern rest
                              filtered (excluded @ [p])
                       else filter_loop re_search include_pattern exclude_pattern rest
                              (filtered @ [p]) excluded)
             else filter_loop re_search include_pattern exclude_pattern rest
                    (filtered @ [p]) excluded)
      in if truthy exclude_pattern
         then (case re_search (the exclude_pattern) project_id of
                 None \<Rightarrow> Inl ReError
               | Some m \<Rightarrow>
                   if m
                   then filter_loop re_search include_pattern exclude_pattern rest
                          filtered (excluded @ [p])
                   else check_include)
         else check_include)"

definition filter_projects ::
  "regex_engine \<Rightarrow> project_info list \<Rightarrow> string option \<Rightarrow> string option \<Rightarrow>
   exn + (project_info list \<times> project_info list)" where
  "filter_projects re_search projects include_pattern exclude_pattern =
     filter_loop re_search include_pattern exclude_pattern projects [] []"

section \<open>IAM policies and the remote state\<close>

text \<open>
  A binding and a policy as \<open>getIamPolicy\<close> returns them: dictionaries whose keys
  \<open>role\<close>, \<open>members\<close>, \<open>condition\<close>, \<open>bindings\<close> and \<open>etag\<close> may be absent.
\<close>

record binding =
  binding_role :: "string option"
  binding_members :: "string list option"
  binding_condition :: "string option"

record policy =
  policy_bindings :: "binding list option"
  policy_etag :: "string option"

text \<open>\<open>policy.get('bindings', [])\<close> and \<open>binding.get('members', [])\<close>.\<close>

definition get_bindings :: "policy \<Rightarrow> binding list" where
  "get_bindings p = (case policy_bindings p of None \<Rightarrow> [] | Some bs \<Rightarrow> bs)"

definition get_members :: "binding \<Rightarrow> string list" where
  "get_members b = (case binding_members b of None \<Rightarrow> [] | Some ms \<Rightarrow> ms)"

text \<open>
  The state that the granter reads and writes. The remote part holds the policy of every
  project the caller can reach, a schedule of transient faults (one flag per API call
  still to come, \<open>True\<close> for a call that raises; calls beyond the schedule do not fault)
  and the trace of the calls issued. The local part is the script's global counters and
  its error log.
\<close>

datatype api_call = GetIamPolicy string | SetIamPolicy string policy

record state =
  policies :: "string \<rightharpoonup> policy"
  faults :: "bool list"
  api_calls :: "api_call list"
  success_count :: int
  failure_count :: int
  already_granted_count :: int
  errors_log :: "string list"

definition next_fault :: "state \<Rightarrow> bool \<times> state" where
  "next_fault s = (case faults s of [] \<Rightarrow> (False, s) | f # fs \<Rightarrow> (f, s\<lparr>faults := fs\<rparr>))"

text \<open>
  \<open>client.projects().getIamPolicy(resource=..., body={}).execute()\<close>: raises on a fault
  and on a project the caller cannot reach, returns the stored policy otherwise.
\<close>

definition getIamPolicy :: "string \<Rightarrow> state \<Rightarrow> (exn + policy) \<times> state" where
  "getIamPolicy resource s =
     (case next_fault s of
        (fault, s1) \<Rightarrow>
          (let s2 = s1\<lparr>api_calls := api_calls s1 @ [GetIamPolicy resource]\<rparr>
           in if fault then (Inl HttpError, s2)
              else case policies s2 resource of
                     None \<Rightarrow> (Inl HttpError, s2)
                   | Some p \<Rightarrow> (Inr p, s2)))"

text \<open>
  \<open>client.projects().setIamPolicy(resource=..., body={'policy': policy}).execute()\<close>:
  raises on a fault and on a project the caller cannot reach, and stores the policy
  otherwise.
\<close>

definition setIamPolicy :: "string \<Rightarrow> policy \<Rightarrow> state \<Rightarrow> (exn + unit) \<times> state" where
  "setIamPolicy resource p s =
     (case next_fault s of
        (fault, s1) \<Rightarrow>
          (let s2 = s1\<lparr>api_calls := api_calls s1 @ [SetIamPolicy resource p]\<rparr>
           in if fault then (Inl HttpError, s2)
              else case policies s2 resource of
                     None \<Rightarrow> (Inl HttpError, s2)
                   | Some old \<Rightarrow> (Inr (), s2\<lparr>policies := (policies s2)(resource \<mapsto> p)\<rparr>)))"

text \<open>\<open>log_error\<close>: append to the error log (under its lock).\<close>

definition log_error :: "string \<Rightarrow> state \<Rightarrow> state" where
  "log_error message s = s\<lparr>errors_log := errors_log s @ [message]\<rparr>"

section \<open>The permission check\<close>

text \<open>
  The loop of \<open>check_permission\<close> (grant-viewer-access.py, lines 251-256): every binding
  is inspected until one for the role lists the member; \<open>binding['role']\<close> raises
  \<open>KeyError\<close> on a binding without that key.
\<close>

fun scan_bindings :: "binding list \<Rightarrow> string \<Rightarrow> string \<Rightarrow> exn + bool" where
  "scan_bindings [] member role = Inr False"
| "scan_bindings (b # rest) member role =
     (case binding_role b of
        None \<Rightarrow> Inl (KeyError ''role'')
      | Some r \<Rightarrow>
          if r = role
          then (if member \<in> set (get_members b) then Inr True
                else scan_bindings rest member role)
          else scan_bindings rest member role)"

text \<open>
  \<open>check_permission\<close>: \<open>Some True\<close>, \<open>Some False\<close>, or \<open>None\<close> after any exception,
  which is logged.
\<close>

definition check_permission :: "string \<Rightarrow> string \<Rightarrow> string \<Rightarrow> state \<Rightarrow> bool option \<times> state" where
  "check_permission project_id member role s =
     (case getIamPolicy project_id s of
        (Inl ex, s1) \<Rightarrow>
          (None, log_error (''Project: '' @ project_id @ '' - Failed to check permissions: ''
                              @ str_exn ex) s1)
      | (Inr p, s1) \<Rightarrow>
          (case scan_bindings (get_bindings p) member role of
             Inl ex \<Rightarrow>
               (None, log_error (''Project: '' @ project_id @ '' - Failed to check permissions: ''
                                   @ str_exn ex) s1)
           | Inr found \<Rightarrow> (Some found, s1)))"

section \<open>The grant\<close>

text \<open>
  The loop that adds the member (lines 296-302): it stops at the first binding for the
  role. The result is the bindings after the loop and the flag \<open>binding_found\<close>.
  \<open>binding['members'].append(member)\<close> raises \<open>KeyError\<close> on a binding without the
  key \<open>members\<close>.
\<close>

fun add_member :: "binding list \<Rightarrow> string \<Rightarrow> string \<Rightarrow> exn + (binding list \<times> bool)" where
  "add_member [] member role = Inr ([], False)"
| "add_member (b # rest) member role =
     (case binding_role b of
        None \<Rightarrow> Inl (KeyError ''role'')
      | Some r \<Rightarrow>
          if r = role
          then (if member \<notin> set (get_members b)
                then (case binding_members b of
                        None \<Rightarrow> Inl (KeyError ''members'')
                      | Some ms \<Rightarrow> Inr (b\<lparr>binding_members := Some (ms @ [member])\<rparr> # rest, True))
                else Inr (b # rest, True))
          else (case add_member rest member role of
                  Inl ex \<Rightarrow> Inl ex
                | Inr (rest', binding_found) \<Rightarrow> Inr (b # rest', binding_found)))"

text \<open>
  Lines 295-308: the policy that is written back. Without a binding for the role,
  \<open>policy.setdefault('bindings', []).append(...)\<close> adds one with the member alone.
\<close>

definition update_policy :: "policy \<Rightarrow> string \<Rightarrow> string \<Rightarrow> exn + policy" where
  "update_policy p member role =
     (case add_member (get_bindings p) member role of
        Inl ex \<Rightarrow> Inl ex
      | Inr (bs, binding_found) \<Rightarrow>
          if \<not> binding_found
          then Inr (p\<lparr>policy_bindings :=
                      Some (bs @ [\<lparr>binding_role = Some role, binding_members = Some [member],
                                   binding_condition = None\<rparr>])\<rparr>)
          else Inr (p\<lparr>policy_bindings := Some bs\<rparr>))"

text \<open>The command-line arguments of the granter.\<close>

record args =
  arg_all_projects :: bool
  arg_projects_file :: string
  arg_user_email :: "string option"
  arg_service_account :: "string option"
  arg_role :: string
  arg_max_workers :: int
  arg_dry_run :: bool
  arg_check_only :: bool

text \<open>The result dictionary of one task.\<close>

datatype status = granted | already_granted | would_grant | failed

record result =
  result_project_id :: string
  result_status :: status
  result_message :: string

text \<open>The handler \<open>except Exception as ex\<close> of \<open>grant_iam_permission\<close> (lines 327-338).\<close>

definition grant_failed :: "string \<Rightarrow> exn \<Rightarrow> state \<Rightarrow> result \<times> state" where
  "grant_failed project_id ex s =
     (\<lparr>result_project_id = project_id, result_status = failed, result_message = str_exn ex\<rparr>,
      log_error (''Project: '' @ project_id @ '' - '' @ str_exn ex)
        (s\<lparr>failure_count := failure_count s + 1\<rparr>))"

text \<open>\<open>grant_iam_permission\<close> (lines 262-338).\<close>

definition grant_iam_permission ::
  "args \<Rightarrow> string \<Rightarrow> string \<Rightarrow> string \<Rightarrow> state \<Rightarrow> result \<times> state" where
  "grant_iam_permission a project_id member role s =
     (case check_permission project_id member role s of
        (has_permission, s1) \<Rightarrow>
          if has_permission = Some True
          then (\<lparr>result_project_id = project_id, result_status = already_granted,
                  result_message = ''Already has '' @ role\<rparr>,
                s1\<lparr>already_granted_count := already_granted_count s1 + 1\<rparr>)
          else if arg_dry_run a \<or> arg_check_only a
          then (\<lparr>result_project_id = project_id, result_status = would_grant,
                  result_message = ''Would grant '' @ role\<rparr>, s1)
          else (case getIamPolicy project_id s1 of
                  (Inl ex, s2) \<Rightarrow> grant_failed project_id ex s2
                | (Inr p, s2) \<Rightarrow>
                    (case update_policy p member role of
                       Inl ex \<Rightarrow> grant_failed project_id ex s2
                     | Inr p' \<Rightarrow>
                         (case setIamPolicy project_id p' s2 of
                            (Inl ex, s3) \<Rightarrow> grant_failed project_id ex s3
                          | (Inr u, s3) \<Rightarrow>
                              (\<lparr>result_project_id = project_id, result_status = granted,
                                result_message = ''Successfully granted '' @ role\<rparr>,
                               s3\<lparr>success_count := success_count s3 + 1\<rparr>)))))"

section \<open>The worker pool\<close>

text \<open>
  \<open>process_projects_parallel\<close> submits one call of \<open>grant_iam_permission\<close> per
  project to a thread pool. The threads interleave at their API calls, so a task is cut
  at those calls: \<open>Submitted\<close> (nothing done yet), \<open>Checked\<close> (the check is over and
  the grant is to start), \<open>Fetched p\<close> (the policy is read and updated to \<open>p\<close>, the
  write is to come), \<open>Finished r\<close> (the task returned \<open>r\<close>). A step is one API call
  with the local computation after it; the counters and the log are updated under
  their locks, which makes those updates part of the step.
\<close>

datatype task = Submitted | Checked | Fetched policy | Finished result

fun task_step :: "args \<Rightarrow> string \<Rightarrow> string \<Rightarrow> string \<Rightarrow> task \<Rightarrow> state \<Rightarrow> task \<times> state" where
  "task_step a project_id member role Submitted s =
     (case check_permission project_id member role s of
        (has_permission, s1) \<Rightarrow>
          if has_permission = Some True
          then (Finished \<lparr>result_project_id = project_id, result_status = already_granted,
                          result_message = ''Already has '' @ role\<rparr>,
                s1\<lparr>already_granted_count := already_granted_count s1 + 1\<rparr>)
          else if arg_dry_run a \<or> arg_check_only a
          then (Finished \<lparr>result_project_id = project_id, result_status = would_grant,
                          result_message = ''Would grant '' @ role\<rparr>, s1)
          else (Checked, s1))"
| "task_step a project_id member role Checked s =
     (case getIamPolicy project_id s of
        (Inl ex, s2) \<Rightarrow> (case grant_failed project_id ex s2 of (r, s') \<Rightarrow> (Finished r, s'))
      | (Inr p, s2) \<Rightarrow>
          (case update_policy p member role of
             Inl ex \<Rightarrow> (case grant_failed project_id ex s2 of (r, s') \<Rightarrow> (Finished r, s'))
           | Inr p' \<Rightarrow> (Fetched p', s2)))"
| "task_step a project_id member role (Fetched p') s =
     (case setIamPolicy project_id p' s of
        (Inl ex, s3) \<Rightarrow> (case grant_failed project_id ex s3 of (r, s') \<Rightarrow> (Finished r, s'))
      | (Inr u, s3) \<Rightarrow>
          (Finished \<lparr>result_project_id = project_id, result_status = granted,
                     result_message = ''Successfully granted '' @ role\<rparr>,
           s3\<lparr>success_count := success_count s3 + 1\<rparr>))"
| "task_step a project_id member role (Finished r) s = (Finished r, s)"

text \<open>The number of steps a task has left at most.\<close>

fun remaining :: "task \<Rightarrow> nat" where
  "remaining Submitted = 3"
| "remaining Checked = 2"
| "remaining (Fetched p) = 1"
| "remaining (Finished r) = 0"

definition work_left :: "(string \<times> task) list \<Rightarrow> nat" where
  "work_left futures = sum_list (map (\<lambda>f. remaining (snd f)) futures)"

text \<open>The positions of the futures that are not done.\<close>

definition unfinished :: "(string \<times> task) list \<Rightarrow> nat list" where
  "unfinished futures = filter (\<lambda>i. remaining (snd (futures ! i)) \<noteq> 0) [0..<length futures]"

text \<open>
  One step of the pool: the scheduler's choice \<open>c\<close> selects one of the unfinished
  futures, whose task makes its next step; a task that finishes hands its result to the
  \<open>as_completed\<close> loop, which sees the results in the order of completion.
\<close>

definition pool_step ::
  "args \<Rightarrow> string \<Rightarrow> string \<Rightarrow> nat \<Rightarrow> (string \<times> task) list \<Rightarrow> result list \<Rightarrow> state \<Rightarrow>
   (string \<times> task) list \<times> result list \<times> state" where
  "pool_step a member role c futures completed s =
     (let i = unfinished futures ! (c mod length (unfinished futures));
          project_id = fst (futures ! i)
      in case task_step a project_id member role (snd (futures ! i)) s of
           (t', s') \<Rightarrow>
             (futures[i := (project_id, t')],
              (case t' of Finished r \<Rightarrow> completed @ [r] | _ \<Rightarrow> completed),
              s'))"

text \<open>
  The pool runs until every future is done. The schedule lists the scheduler's choices;
  when it is used up the first unfinished future is chosen. Every interleaving of the
  threads' API calls is the run of some schedule (the bound \<open>max_workers\<close> only rules
  some schedules out).
\<close>

function run_pool ::
  "args \<Rightarrow> string \<Rightarrow> string \<Rightarrow> nat list \<Rightarrow> (string \<times> task) list \<Rightarrow> result list \<Rightarrow> state \<Rightarrow>
   result list \<times> state" where
  "run_pool a member role sched futures completed s =
     (if unfinished futures = [] then (completed, s)
      else case pool_step a member role (case sched of [] \<Rightarrow> 0 | c # cs \<Rightarrow> c) futures completed s of
             (futures', completed', s') \<Rightarrow>
               run_pool a member role (tl sched) futures' completed' s')"
  by pat_completeness auto

lemma task_step_remaining:
  "remaining t \<noteq> 0 \<Longrightarrow> remaining (fst (task_step a project_id member role t s)) < remaining t"
  by (cases t) (auto simp: grant_failed_def split: prod.splits sum.splits if_splits)

lemma unfinished_mem:
  "i \<in> set (unfinished futures) \<longleftrightarrow> i < length futures \<and> remaining (snd (futures ! i)) \<noteq> 0"
  by (auto simp: unfinished_def)

lemma unfinished_pick:
  "unfinished futures \<noteq> [] \<Longrightarrow>
   unfinished futures ! (c mod length (unfinished futures)) \<in> set (unfinished futures)"
  by simp

lemma work_left_update:
  "i < length futures \<Longrightarrow> remaining t' < remaining (snd (futures ! i)) \<Longrightarrow>
   work_left (futures[i := (p, t')]) < work_left futures"
proof (induction futures arbitrary: i)
  case Nil
  then show ?case by simp
next
  case (Cons f fs)
  show ?case
  proof (cases i)
    case 0
    with Cons.prems show ?thesis by (simp add: work_left_def)
  next
    case (Suc j)
    with Cons.prems have "work_left (fs[j := (p, t')]) < work_left fs"
      by (intro Cons.IH) simp_all
    with Suc show ?thesis by (simp add: work_left_def)
  qed
qed

lemma pool_step_work_left:
  assumes "unfinished futures \<noteq> []"
  shows "work_left (fst (pool_step a member role c futures completed s)) < work_left futures"
proof -
  let ?i = "unfinished futures ! (c mod length (unfinished futures))"
  have mem: "?i \<in> set (unfinished futures)" using assms by (rule unfinished_pick)
  then have i: "?i < length futures" and r: "remaining (snd (futures ! ?i)) \<noteq> 0"
    by (simp_all add: unfinished_mem)
  obtain t' s1 where ts: "task_step a (fst (futures ! ?i)) member role (snd (futures ! ?i)) s = (t', s1)"
    by (cases "task_step a (fst (futures ! ?i)) member role (snd (futures ! ?i)) s")
  from task_step_remaining [OF r, of a "fst (futures ! ?i)" member role s] ts
  have "remaining t' < remaining (snd (futures ! ?i))" by simp
  from work_left_update [OF i this, of "fst (futures ! ?i)"] ts
  show ?thesis by (simp add: pool_step_def Let_def)
qed

termination run_pool
proof (relation "measure (\<lambda>(a, member, role, sched, futures, completed, s). work_left futures)",
       goal_cases)
  case 1
  show ?case by simp
next
  case (2 a member role sched futures completed s x xa y)
  from pool_step_work_left [OF 2(1), of a member role "case sched of [] \<Rightarrow> 0 | c # cs \<Rightarrow> c" completed s]
       2(2) [symmetric]
  show ?case by simp
qed

declare run_pool.simps [simp del]

text \<open>
  \<open>process_projects_parallel\<close>: every project of the list is submitted, in order, and
  the pool runs to the end. The results are those the \<open>as_completed\<close> loop receives;
  the printed progress lines and summary and the log file written at the end are not
  part of the model.
\<close>

definition process_projects_parallel ::
  "args \<Rightarrow> nat list \<Rightarrow> string list \<Rightarrow> string \<Rightarrow> string \<Rightarrow> state \<Rightarrow> result list \<times> state" where
  "process_projects_parallel a sched projects member role s =
     run_pool a member role sched (map (\<lambda>project_id. (project_id, Submitted)) projects) [] s"

section \<open>The principal and the main function of the granter\<close>

text \<open>
  The ambient credential: each of the attributes \<open>service_account_email\<close> and
  \<open>_service_account_email\<close> is present (\<open>hasattr\<close>) or not.
\<close>

record credential =
  service_account_email :: "string option"
  private_service_account_email :: "string option"

text \<open>
  \<open>get_current_user_email\<close>. \<open>userinfo\<close> is what the query of the \<open>oauth2\<close>
  service yields: an exception, or the value of \<open>user_info.get('email')\<close>.
\<close>

definition get_current_user_email :: "credential \<Rightarrow> exn + string option \<Rightarrow> string option" where
  "get_current_user_email cred userinfo =
     (case service_account_email cred of
        Some e \<Rightarrow> Some (''serviceAccount:'' @ e)
      | None \<Rightarrow>
          (case private_service_account_email cred of
             Some e \<Rightarrow> Some (''serviceAccount:'' @ e)
           | None \<Rightarrow>
               (case userinfo of
                  Inl ex \<Rightarrow> None
                | Inr email \<Rightarrow> if truthy email then Some (''user:'' @ the email) else None)))"

text \<open>\<open>get_member_identifier\<close> (lines 175-188).\<close>

definition get_member_identifier ::
  "args \<Rightarrow> credential \<Rightarrow> exn + string option \<Rightarrow> exit + string" where
  "get_member_identifier a cred userinfo =
     (if truthy (arg_user_email a) then Inr (''user:'' @ the (arg_user_email a))
      else if truthy (arg_service_account a)
      then Inr (''serviceAccount:'' @ the (arg_service_account a))
      else (case get_current_user_email cred userinfo of
              None \<Rightarrow> Inl (SysExit 1)
            | Some member \<Rightarrow> Inr member))"

text \<open>
  What the process finds around it: the ambient credential (\<open>None\<close> when
  \<open>google.auth.default()\<close> raises), the answer of the \<open>oauth2\<close> service, the listing
  endpoint, the files, the line the operator types at the prompt (\<open>None\<close> at end of
  input, where \<open>input\<close> raises \<open>EOFError\<close>), and the scheduler's choices.
\<close>

record env =
  env_credential :: "credential option"
  env_userinfo :: "exn + string option"
  env_listing :: listing
  env_files :: "string \<rightharpoonup> string"
  env_input :: "string option"
  env_schedule :: "nat list"

text \<open>
  The confirmation gate of \<open>main\<close> (lines 431-438): \<open>Some n\<close> when the process ends
  there with status \<open>n\<close>, \<open>None\<close> when the run goes on. An uncaught exception ends a
  Python process with status 1.
\<close>

definition confirm :: "args \<Rightarrow> string option \<Rightarrow> int option" where
  "confirm a typed =
     (if \<not> arg_dry_run a \<and> \<not> arg_check_only a
      then (case typed of
              None \<Rightarrow> Some 1
            | Some response \<Rightarrow> if lower response \<noteq> ''yes'' then Some 0 else None)
      else None)"

text \<open>
  \<open>main\<close> (lines 405-443): the exit status of the process and the final state;
  \<open>None\<close> when the listing never ends. Returning from \<open>main\<close> ends the process with
  status 0. The state records the IAM policy requests only: the \<open>oauth2\<close> and
  \<open>projects.list\<close> requests are read from the environment and leave no trace in it,
  and the log file that \<open>process_projects_parallel\<close> writes at its end (and a
  failure to write it) is not modelled.
\<close>

definition main :: "args \<Rightarrow> credential \<Rightarrow> env \<Rightarrow> state \<Rightarrow> (int \<times> state) option" where
  "main a cred e s =
     (case get_member_identifier a cred (env_userinfo e) of
        Inl (SysExit n) \<Rightarrow> Some (n, s)
      | Inr member \<Rightarrow>
          (case (if arg_all_projects a then get_all_projects (env_listing e)
                 else Some (get_projects_from_file (env_files e) (arg_projects_file a))) of
             None \<Rightarrow> None
           | Some (Inl (SysExit n)) \<Rightarrow> Some (n, s)
           | Some (Inr projects) \<Rightarrow>
               if projects = [] then Some (1, s)
               else (case confirm a (env_input e) of
                       Some n \<Rightarrow> Some (n, s)
                     | None \<Rightarrow>
                         (case process_projects_parallel a (env_schedule e) projects member
                                 (arg_role a) s of
                            (results, s') \<Rightarrow> Some (0, s')))))"

text \<open>
  The script around \<open>main\<close>: the range check of \<open>--max-workers\<close> (lines 113-115) and
  the resolution of the credential (lines 121-127) come first.
\<close>

definition granter :: "args \<Rightarrow> env \<Rightarrow> state \<Rightarrow> (int \<times> state) option" where
  "granter a e s =
     (if arg_max_workers a < 1 \<or> arg_max_workers a > 1000 then Some (1, s)
      else case env_credential e of
             None \<Rightarrow> Some (1, s)
           | Some cred \<Rightarrow> main a cred e s)"

text \<open>
  The partition as the specification words it: a project is kept when it does not match
  a set exclude pattern and, if an include pattern is set, matches it. A pattern is set
  when it is truthy. \<open>engine_total\<close> says that the engine raises on no identifier
  of the list for a pattern that is set.
\<close>

definition keeps :: "regex_engine \<Rightarrow> string option \<Rightarrow> string option \<Rightarrow> project_info \<Rightarrow> bool" where
  "keeps re_search include_pattern exclude_pattern p =
     (\<not> (truthy exclude_pattern \<and> re_search (the exclude_pattern) (info_id p) = Some True) \<and>
      (\<not> truthy include_pattern \<or> re_search (the include_pattern) (info_id p) = Some True))"

definition engine_total :: "regex_engine \<Rightarrow> string option \<Rightarrow> project_info list \<Rightarrow> bool" where
  "engine_total re_search pattern ps =
     (truthy pattern \<longrightarrow> (\<forall>p \<in> set ps. re_search (the pattern) (info_id p) \<noteq> None))"

section \<open>Predicates on policies used in the claims\<close>

text \<open>
  \<open>roles_unique\<close>: no two bindings of the policy have the same role.
  \<open>complete_bindings\<close>: every binding has its keys \<open>role\<close> and \<open>members\<close>, as
  the API returns it. \<open>merge_member\<close>: the member joins a binding for the role that
  does not list it yet. \<open>has_binding\<close>: the policy has a binding for the role.
\<close>

definition roles_unique :: "policy \<Rightarrow> bool" where
  "roles_unique p = distinct (map binding_role (get_bindings p))"

definition complete_bindings :: "policy \<Rightarrow> bool" where
  "complete_bindings p =
     (\<forall>b \<in> set (get_bindings p). binding_role b \<noteq> None \<and> binding_members b \<noteq> None)"

definition merge_member :: "string \<Rightarrow> string \<Rightarrow> binding \<Rightarrow> binding" where
  "merge_member member role b =
     (if binding_role b = Some role \<and> member \<notin> set (get_members b)
      then b\<lparr>binding_members := Some (get_members b @ [member])\<rparr> else b)"

definition has_binding :: "policy \<Rightarrow> string \<Rightarrow> bool" where
  "has_binding p role = (\<exists>b \<in> set (get_bindings p). binding_role b = Some role)"

text \<open>
  The write calls in the trace of the state: the \<open>setIamPolicy\<close> requests issued
  so far.
\<close>

fun is_write :: "api_call \<Rightarrow> bool" where
  "is_write (GetIamPolicy resource) = False"
| "is_write (SetIamPolicy resource p) = True"

definition writes :: "state \<Rightarrow> api_call list" where
  "writes s = filter is_write (api_calls s)"

text \<open>
  One thread running a task alone: \<open>n\<close> steps of it. Three steps of a submitted task
  are one call of \<open>grant_iam_permission\<close> (lemma \<open>grant_iam_permission_steps\<close>).
\<close>

fun run_task :: "args \<Rightarrow> string \<Rightarrow> string \<Rightarrow> string \<Rightarrow> nat \<Rightarrow> task \<Rightarrow> state \<Rightarrow> task \<times> state" where
  "run_task a project_id member role 0 t s = (t, s)"
| "run_task a project_id member role (Suc n) t s =
     (case task_step a project_id member role t s of
        (t', s') \<Rightarrow> run_task a project_id member role n t' s')"

text \<open>
  The tasks that a dry-run or check-only pool can hold: not started, or finished as
  \<open>already_granted\<close> or \<open>would_grant\<close>.
\<close>

definition dry_ok :: "task \<Rightarrow> bool" where
  "dry_ok t = (case t of Submitted \<Rightarrow> True
               | Finished r \<Rightarrow> result_status r = already_granted \<or> result_status r = would_grant
               | _ \<Rightarrow> False)"

text \<open>
  The results of the finished futures, the number of results with a given status, and
  the invariant of the pool: the futures are those of the submitted projects, the
  results handed over are the results of the finished futures, and each result carries
  the project of its future.
\<close>

fun result_of :: "task \<Rightarrow> result list" where
  "result_of (Finished r) = [r]"
| "result_of t = []"

definition finished_results :: "(string \<times> task) list \<Rightarrow> result list" where
  "finished_results futures = concat (map (\<lambda>f. result_of (snd f)) futures)"

definition outcomes :: "status \<Rightarrow> result list \<Rightarrow> nat" where
  "outcomes st results = length (filter (\<lambda>r. result_status r = st) results)"

definition one_result_each :: "string list \<Rightarrow> (string \<times> task) list \<Rightarrow> result list \<Rightarrow> bool" where
  "one_result_each projects futures completed =
     (map fst futures = projects \<and> mset completed = mset (finished_results futures) \<and>
      (\<forall>f \<in> set futures. \<forall>r. snd f = Finished r \<longrightarrow> result_project_id r = fst f))"

text \<open>
  Example inputs for the concrete instances below: a live run for one user, a policy
  with one binding for another role, and a state with one reachable project and no
  fault scheduled.
\<close>

definition example_args :: args where
  "example_args =
     \<lparr>arg_all_projects = False, arg_projects_file = ''projects.txt'',
      arg_user_email = Some ''alice@example.com'', arg_service_account = None,
      arg_role = ''roles/viewer'', arg_max_workers = 100, arg_dry_run = False,
      arg_check_only = False\<rparr>"

definition example_policy :: policy where
  "example_policy =
     \<lparr>policy_bindings =
        Some [\<lparr>binding_role = Some ''roles/owner'',
               binding_members = Some [''user:carol@example.com''],
               binding_condition = None\<rparr>],
      policy_etag = Some ''BwX''\<rparr>"

definition example_state :: state where
  "example_state =
     \<lparr>policies = [''proj-a'' \<mapsto> example_policy], faults = [], api_calls = [],
      success_count = 0, failure_count = 0, already_granted_count = 0, errors_log = []\<rparr>"

text \<open>
  The invariant of a dry-run or check-only pool with respect to the state \<open>s0\<close> it
  started in.
\<close>

definition dry_pool :: "state \<Rightarrow> (string \<times> task) list \<Rightarrow> result list \<Rightarrow> state \<Rightarrow> bool" where
  "dry_pool s0 futures completed s =
     ((\<forall>f \<in> set futures. dry_ok (snd f)) \<and>
      (\<forall>r \<in> set completed. result_status r = already_granted \<or> result_status r = would_grant) \<and>
      writes s = writes s0 \<and> policies s = policies s0 \<and> success_count s = success_count s0)"

text \<open>
  The bindings of a policy for a role, the number of entries of a member in them, and
  the condition under which the second of two runs can read the policy: the next API
  call does not fault.
\<close>

definition role_bindings :: "policy \<Rightarrow> string \<Rightarrow> binding list" where
  "role_bindings p role = filter (\<lambda>b. binding_role b = Some role) (get_bindings p)"

definition member_entries :: "policy \<Rightarrow> string \<Rightarrow> string \<Rightarrow> nat" where
  "member_entries p role member =
     sum_list (map (\<lambda>b. count_list (get_members b) member) (role_bindings p role))"

definition second_read_succeeds :: "state \<Rightarrow> bool" where
  "second_read_succeeds s = (\<not> fst (next_fault s))"

text \<open>
  For the claims about the remote listing: the projects of a page, the identifiers and
  the lister's dictionaries of its active projects, a page whose projects carry the
  keys the loop reads (\<open>lifecycleState\<close>, and \<open>projectId\<close> on an active project),
  and \<open>pages_of srv req pages\<close>: starting with the request \<open>req\<close> the endpoint
  answers with exactly the pages \<open>pages\<close>, each but the last carrying the token of
  the next request.
\<close>

definition is_active :: "project \<Rightarrow> bool" where
  "is_active p = (lifecycleState p = Some ''ACTIVE'')"

definition page_projects :: "response \<Rightarrow> project list" where
  "page_projects resp = (case response_projects resp of None \<Rightarrow> [] | Some ps \<Rightarrow> ps)"

definition page_active_ids :: "response \<Rightarrow> string list" where
  "page_active_ids resp = map (\<lambda>p. the (projectId p)) (filter is_active (page_projects resp))"

definition wellformed_page :: "response \<Rightarrow> bool" where
  "wellformed_page resp =
     (\<forall>p \<in> set (page_projects resp).
        lifecycleState p \<noteq> None \<and> (is_active p \<longrightarrow> projectId p \<noteq> None))"

fun pages_of :: "listing \<Rightarrow> request \<Rightarrow> response list \<Rightarrow> bool" where
  "pages_of srv req [] = False"
| "pages_of srv req (resp # rest) =
     (srv req = Inr resp \<and>
      (case list_next resp of
         None \<Rightarrow> rest = []
       | Some req' \<Rightarrow> pages_of srv req' rest))"

definition info_of :: "project \<Rightarrow> project_info" where
  "info_of p =
     \<lparr>info_id = the (projectId p),
      info_name = (case project_name p of None \<Rightarrow> ''UNNAMED'' | Some n \<Rightarrow> n),
      info_number = (case projectNumber p of None \<Rightarrow> ''N/A'' | Some n \<Rightarrow> n)\<rparr>"

definition page_active_infos :: "response \<Rightarrow> project_info list" where
  "page_active_infos resp = map info_of (filter is_active (page_projects resp))"

text \<open>An example listing of two pages.\<close>

definition example_page1 :: response where
  "example_page1 =
     \<lparr>response_projects =
        Some [\<lparr>lifecycleState = Some ''ACTIVE'', projectId = Some ''proj-b'',
               project_name = Some ''B'', projectNumber = Some ''2''\<rparr>,
              \<lparr>lifecycleState = Some ''DELETE_REQUESTED'', projectId = Some ''proj-old'',
               project_name = None, projectNumber = Some ''7''\<rparr>],
      nextPageToken = Some ''page2''\<rparr>"

definition example_page2 :: response where
  "example_page2 =
     \<lparr>response_projects =
        Some [\<lparr>lifecycleState = Some ''ACTIVE'', projectId = Some ''proj-a'',
               project_name = None, projectNumber = None\<rparr>],
      nextPageToken = None\<rparr>"

definition example_listing :: listing where
  "example_listing req =
     (if req = ListRequest None then Inr example_page1
      else if req = ListRequest (Some ''page2'') then Inr example_page2
      else Inl HttpError)"

section \<open>Properties of the file reader\<close>

lemma read_projects_eq:
  "read_projects ls acc = acc @ filter (\<lambda>p. p \<noteq> []) (map strip ls)"
  by (induction ls arbitrary: acc) (simp_all add: Let_def)

lemma dropWhile_all_iff: "(\<forall>x \<in> set (dropWhile P xs). P x) \<longleftrightarrow> (\<forall>x \<in> set xs. P x)"
proof
  assume a: "\<forall>x \<in> set (dropWhile P xs). P x"
  have "dropWhile P xs = []"
  proof (rule ccontr)
    assume ne: "dropWhile P xs \<noteq> []"
    then have "\<not> P (hd (dropWhile P xs))" by (rule hd_dropWhile)
    moreover have "hd (dropWhile P xs) \<in> set (dropWhile P xs)" using ne by simp
    ultimately show False using a by blast
  qed
  then show "\<forall>x \<in> set xs. P x" by simp
next
  assume "\<forall>x \<in> set xs. P x"
  then show "\<forall>x \<in> set (dropWhile P xs). P x"
    using set_dropWhileD by fastforce
qed

lemma strip_empty_iff: "strip s = [] \<longleftrightarrow> (\<forall>c \<in> set s. isspace c)"
  by (simp add: strip_def dropWhile_all_iff)

lemma strip_hd: "strip s \<noteq> [] \<Longrightarrow> \<not> isspace (hd (strip s))"
proof -
  assume ne: "strip s \<noteq> []"
  let ?t = "dropWhile isspace s"
  let ?u = "dropWhile isspace (rev ?t)"
  from ne have t: "?t \<noteq> []" by (simp add: strip_empty_iff)
  from ne have u: "?u \<noteq> []" by (simp add: strip_def)
  have "\<not> isspace (hd ?t)" using t by (rule hd_dropWhile)
  have "hd (rev ?u) = hd ?t"
  proof -
    have "?t = rev ?u @ rev (takeWhile isspace (rev ?t))"
      by (metis rev_append rev_rev_ident takeWhile_dropWhile_id)
    then have "hd ?t = hd (rev ?u @ rev (takeWhile isspace (rev ?t)))" by simp
    also have "\<dots> = hd (rev ?u)" using u by simp
    finally show ?thesis by simp
  qed
  with \<open>\<not> isspace (hd ?t)\<close> show ?thesis by (simp add: strip_def)
qed

lemma strip_last: "strip s \<noteq> [] \<Longrightarrow> \<not> isspace (last (strip s))"
proof -
  assume ne: "strip s \<noteq> []"
  let ?u = "dropWhile isspace (rev (dropWhile isspace s))"
  from ne have u: "?u \<noteq> []" by (simp add: strip_def)
  then have "\<not> isspace (hd ?u)" by (rule hd_dropWhile)
  moreover have "last (rev ?u) = hd ?u" using u by (simp add: last_rev)
  ultimately show ?thesis by (simp add: strip_def)
qed

lemma get_projects_from_file_eq:
  "fs filename = Some content \<Longrightarrow>
   get_projects_from_file fs filename =
     Inr (filter (\<lambda>p. p \<noteq> []) (map strip (file_lines content)))"
  by (simp add: get_projects_from_file_def read_projects_eq)

section \<open>Claims about the file reader\<close>

text \<open>
  C4, as amended. Reading the project list of an existing file drops exactly the blank
  lines (empty or all whitespace) and returns every other line, in file order, trimmed:
  no returned identifier is empty or starts or ends with whitespace. A line that starts
  with \<open>#\<close> is returned like any other line. A missing file ends the process with
  status 1.
\<close>

theorem get_projects_from_file_trims_nonblank:
  "(fs filename = None \<longrightarrow> get_projects_from_file fs filename = Inl (SysExit 1)) \<and>
   (\<forall>content. fs filename = Some content \<longrightarrow>
      get_projects_from_file fs filename =
        Inr (map strip (filter (\<lambda>l. \<not> (\<forall>c \<in> set l. isspace c)) (file_lines content))) \<and>
      (\<forall>p \<in> set (map strip (filter (\<lambda>l. \<not> (\<forall>c \<in> set l. isspace c)) (file_lines content))).
         p \<noteq> [] \<and> \<not> isspace (hd p) \<and> \<not> isspace (last p)))"
proof (intro conjI allI impI)
  assume "fs filename = None"
  then show "get_projects_from_file fs filename = Inl (SysExit 1)"
    by (simp add: get_projects_from_file_def)
next
  fix content
  assume c: "fs filename = Some content"
  have "filter (\<lambda>p. p \<noteq> []) (map strip (file_lines content)) =
        map strip (filter (\<lambda>l. \<not> (\<forall>c \<in> set l. isspace c)) (file_lines content))"
    by (simp add: filter_map o_def strip_empty_iff)
  with c show "get_projects_from_file fs filename =
        Inr (map strip (filter (\<lambda>l. \<not> (\<forall>c \<in> set l. isspace c)) (file_lines content)))"
    by (simp add: get_projects_from_file_eq)
next
  fix content
  show "\<forall>p \<in> set (map strip (filter (\<lambda>l. \<not> (\<forall>c \<in> set l. isspace c)) (file_lines content))).
         p \<noteq> [] \<and> \<not> isspace (hd p) \<and> \<not> isspace (last p)"
  proof
    fix p
    assume "p \<in> set (map strip (filter (\<lambda>l. \<not> (\<forall>c \<in> set l. isspace c)) (file_lines content)))"
    then obtain l where l: "p = strip l" "\<not> (\<forall>c \<in> set l. isspace c)" by auto
    then have "p \<noteq> []" by (simp add: strip_empty_iff)
    with l(1) show "p \<noteq> [] \<and> \<not> isspace (hd p) \<and> \<not> isspace (last p)"
      using strip_hd [of l] strip_last [of l] by simp
  qed
qed

text \<open>
  The example of the specification, through the theorem: the file with the lines
  \<open>proj-a\<close>, an empty line and \<open>proj-b\<close>.
\<close>

theorem get_projects_from_file_trims_nonblank_witness:
  "get_projects_from_file [''projects.txt'' \<mapsto> ''proj-a'' @ [CHR 0x0A, CHR 0x0A] @ ''proj-b'' @ [CHR 0x0A]]
     ''projects.txt'' = Inr [''proj-a'', ''proj-b'']"
  using get_projects_from_file_trims_nonblank
    [of "[''projects.txt'' \<mapsto> ''proj-a'' @ [CHR 0x0A, CHR 0x0A] @ ''proj-b'' @ [CHR 0x0A]]"
        "''projects.txt''"]
  by (simp add: strip_def isspace_def)

text \<open>
  C4 as stated fails: a comment line is not ignored. The file with the lines
  \<open># production\<close> and \<open>proj-a\<close> yields both.
\<close>

theorem get_projects_from_file_comment_counterexample:
  "get_projects_from_file [''projects.txt'' \<mapsto> ''# production'' @ [CHR 0x0A] @ ''proj-a'' @ [CHR 0x0A]]
     ''projects.txt'' = Inr [''# production'', ''proj-a'']"
  by (simp add: get_projects_from_file_def strip_def isspace_def)

section \<open>Claims about the pattern filter\<close>

lemma filter_loop_eq:
  "engine_total re_search inc ps \<Longrightarrow> engine_total re_search exc ps \<Longrightarrow>
   filter_loop re_search inc exc ps filtered excluded =
     Inr (filtered @ filter (keeps re_search inc exc) ps,
          excluded @ filter (\<lambda>p. \<not> keeps re_search inc exc p) ps)"
proof (induction ps arbitrary: filtered excluded)
  case Nil
  then show ?case by simp
next
  case (Cons p ps)
  from Cons.prems have t: "engine_total re_search inc ps" "engine_total re_search exc ps"
    by (simp_all add: engine_total_def)
  note IH = Cons.IH [OF t]
  from Cons.prems have
    e: "truthy exc \<Longrightarrow> \<exists>m. re_search (the exc) (info_id p) = Some m" and
    i: "truthy inc \<Longrightarrow> \<exists>m. re_search (the inc) (info_id p) = Some m"
    by (auto simp: engine_total_def)
  show ?case
  proof (cases "truthy exc")
    case True
    then obtain m where m: "re_search (the exc) (info_id p) = Some m" using e by blast
    show ?thesis
    proof (cases "truthy inc")
      case inc: True
      then obtain m' where m': "re_search (the inc) (info_id p) = Some m'" using i by blast
      from True inc m m' show ?thesis by (simp add: IH keeps_def Let_def)
    next
      case False
      with True m show ?thesis by (simp add: IH keeps_def Let_def)
    qed
  next
    case False
    show ?thesis
    proof (cases "truthy inc")
      case inc: True
      then obtain m' where m': "re_search (the inc) (info_id p) = Some m'" using i by blast
      from False inc m' show ?thesis by (simp add: IH keeps_def Let_def)
    next
      case inc: False
      with False show ?thesis by (simp add: IH keeps_def Let_def)
    qed
  qed
qed

text \<open>
  C6. When the regular-expression engine raises on none of the identifiers,
  \<open>filter_projects\<close> returns the kept projects and the excluded projects, each in
  the order of the input: a project is kept exactly when it does not match the exclude
  pattern (if one is set) and matches the include pattern (if one is set). A project
  that matches the exclude pattern is therefore excluded whatever the include pattern
  says, and with no pattern set the kept list is the input and the excluded list is
  empty. (A pattern is set when it is a non-empty string.)
\<close>

theorem filter_projects_partition:
  assumes "engine_total re_search include_pattern projects"
    and "engine_total re_search exclude_pattern projects"
  shows "filter_projects re_search projects include_pattern exclude_pattern =
           Inr (filter (keeps re_search include_pattern exclude_pattern) projects,
                filter (\<lambda>p. \<not> keeps re_search include_pattern exclude_pattern p) projects) \<and>
         (\<forall>p \<in> set projects.
            truthy exclude_pattern \<and> re_search (the exclude_pattern) (info_id p) = Some True \<longrightarrow>
            \<not> keeps re_search include_pattern exclude_pattern p) \<and>
         (\<not> truthy include_pattern \<and> \<not> truthy exclude_pattern \<longrightarrow>
            filter_projects re_search projects include_pattern exclude_pattern = Inr (projects, []))"
proof -
  have eq: "filter_projects re_search projects include_pattern exclude_pattern =
           Inr (filter (keeps re_search include_pattern exclude_pattern) projects,
                filter (\<lambda>p. \<not> keeps re_search include_pattern exclude_pattern p) projects)"
    using filter_loop_eq [OF assms, of "[]" "[]"] by (simp add: filter_projects_def)
  moreover have "\<not> truthy include_pattern \<and> \<not> truthy exclude_pattern \<longrightarrow>
      filter (keeps re_search include_pattern exclude_pattern) projects = projects \<and>
      filter (\<lambda>p. \<not> keeps re_search include_pattern exclude_pattern p) projects = []"
    by (simp add: keeps_def)
  ultimately show ?thesis by (simp add: keeps_def)
qed

text \<open>
  The example of the specification, through the theorem, with an engine that answers
  for the pattern \<open>test|dev\<close> as \<open>re.search\<close> does on the three identifiers.
\<close>

theorem filter_projects_partition_witness:
  "filter_projects (\<lambda>pattern s. if pattern = ''test|dev'' then Some (s \<in> set [''test-api'', ''dev-db'']) else None)
     [\<lparr>info_id = ''prod-api'', info_name = ''UNNAMED'', info_number = ''1''\<rparr>,
      \<lparr>info_id = ''test-api'', info_name = ''UNNAMED'', info_number = ''2''\<rparr>,
      \<lparr>info_id = ''dev-db'', info_name = ''UNNAMED'', info_number = ''3''\<rparr>]
     None (Some ''test|dev'') =
   Inr ([\<lparr>info_id = ''prod-api'', info_name = ''UNNAMED'', info_number = ''1''\<rparr>],
        [\<lparr>info_id = ''test-api'', info_name = ''UNNAMED'', info_number = ''2''\<rparr>,
         \<lparr>info_id = ''dev-db'', info_name = ''UNNAMED'', info_number = ''3''\<rparr>])"
  using filter_projects_partition
    [of "\<lambda>pattern s. if pattern = ''test|dev'' then Some (s \<in> set [''test-api'', ''dev-db'']) else None"
        None
        "[\<lparr>info_id = ''prod-api'', info_name = ''UNNAMED'', info_number = ''1''\<rparr>,
          \<lparr>info_id = ''test-api'', info_name = ''UNNAMED'', info_number = ''2''\<rparr>,
          \<lparr>info_id = ''dev-db'', info_name = ''UNNAMED'', info_number = ''3''\<rparr>]"
        "Some ''test|dev''"]
  by (simp add: engine_total_def keeps_def)

section \<open>Claims about the principal and the confirmation gate\<close>

text \<open>
  C10. When a user email is supplied, the member is \<open>user:\<close> followed by that
  email, whatever the service-account argument and the caller's own credential are.
  With no user email and a service account supplied, the member is
  \<open>serviceAccount:\<close> followed by it, whatever the credential is. The caller's own
  resolved identity is used only when neither is supplied, and the process ends with
  status 1 when it cannot be resolved. (An argument is supplied when it is a non-empty
  string.)
\<close>

theorem get_member_identifier_precedence:
  "(truthy (arg_user_email a) \<longrightarrow>
      get_member_identifier a cred userinfo = Inr (''user:'' @ the (arg_user_email a)) \<and>
      get_member_identifier (a\<lparr>arg_service_account := sa\<rparr>) cred' userinfo' =
        get_member_identifier a cred userinfo) \<and>
   (\<not> truthy (arg_user_email a) \<and> truthy (arg_service_account a) \<longrightarrow>
      get_member_identifier a cred userinfo =
        Inr (''serviceAccount:'' @ the (arg_service_account a)) \<and>
      get_member_identifier a cred' userinfo' = get_member_identifier a cred userinfo) \<and>
   (\<not> truthy (arg_user_email a) \<and> \<not> truthy (arg_service_account a) \<longrightarrow>
      get_member_identifier a cred userinfo =
        (case get_current_user_email cred userinfo of
           None \<Rightarrow> Inl (SysExit 1)
         | Some member \<Rightarrow> Inr member))"
  by (simp add: get_member_identifier_def)

text \<open>Both arguments supplied, and a service-account credential: the user email wins.\<close>

theorem get_member_identifier_precedence_witness:
  "get_member_identifier
     \<lparr>arg_all_projects = True, arg_projects_file = ''projects.txt'',
      arg_user_email = Some ''alice@example.com'',
      arg_service_account = Some ''sa@project.iam.gserviceaccount.com'',
      arg_role = ''roles/viewer'', arg_max_workers = 100, arg_dry_run = False,
      arg_check_only = False\<rparr>
     \<lparr>service_account_email = Some ''caller@project.iam.gserviceaccount.com'',
      private_service_account_email = None\<rparr>
     (Inr None) = Inr ''user:alice@example.com''"
  using get_member_identifier_precedence
    [of "\<lparr>arg_all_projects = True, arg_projects_file = ''projects.txt'',
      arg_user_email = Some ''alice@example.com'',
      arg_service_account = Some ''sa@project.iam.gserviceaccount.com'',
      arg_role = ''roles/viewer'', arg_max_workers = 100, arg_dry_run = False,
      arg_check_only = False\<rparr>"
     "\<lparr>service_account_email = Some ''caller@project.iam.gserviceaccount.com'',
      private_service_account_email = None\<rparr>" "Inr None"]
  by simp

text \<open>
  C2, as amended. In a run that is neither dry-run nor check-only and has passed the
  setup (workers in range, credential and member resolved, a non-empty project list),
  an answer at the prompt that is not \<open>yes\<close> after lower-casing ends the process
  at once with exit status 0 and without any write: the state (the policies, the trace
  of \<open>getIamPolicy\<close> and \<open>setIamPolicy\<close> requests, the counters and the log) is
  the initial one. The requests that resolve the member and list the projects come
  before the prompt; they are reads of the environment and not part of the state.
\<close>

theorem granter_declined_exits_zero:
  assumes "1 \<le> arg_max_workers a" and "arg_max_workers a \<le> 1000"
    and "env_credential e = Some cred"
    and "get_member_identifier a cred (env_userinfo e) = Inr member"
    and "(if arg_all_projects a then get_all_projects (env_listing e)
          else Some (get_projects_from_file (env_files e) (arg_projects_file a))) =
         Some (Inr projects)"
    and "projects \<noteq> []"
    and "\<not> arg_dry_run a" and "\<not> arg_check_only a"
    and "env_input e = Some response" and "lower response \<noteq> ''yes''"
  shows "granter a e s = Some (0, s)"
  using assms by (simp add: granter_def main_def confirm_def)

text \<open>The operator answers \<open>Nope\<close>.\<close>

theorem granter_declined_exits_zero_witness:
  "granter
     \<lparr>arg_all_projects = False, arg_projects_file = ''projects.txt'',
      arg_user_email = Some ''alice@example.com'', arg_service_account = None,
      arg_role = ''roles/viewer'', arg_max_workers = 100, arg_dry_run = False,
      arg_check_only = False\<rparr>
     \<lparr>env_credential = Some \<lparr>service_account_email = None, private_service_account_email = None\<rparr>,
      env_userinfo = Inr None, env_listing = (\<lambda>req. Inl HttpError),
      env_files = [''projects.txt'' \<mapsto> ''proj-a''],
      env_input = Some ''Nope'', env_schedule = []\<rparr>
     \<lparr>policies = Map.empty,
      faults = [], api_calls = [], success_count = 0, failure_count = 0,
      already_granted_count = 0, errors_log = []\<rparr>
   = Some (0,
     \<lparr>policies = Map.empty,
      faults = [], api_calls = [], success_count = 0, failure_count = 0,
      already_granted_count = 0, errors_log = []\<rparr>)"
  by (rule granter_declined_exits_zero [where member = "''user:alice@example.com''"
        and projects = "[''proj-a'']" and response = "''Nope''"
        and cred = "\<lparr>service_account_email = None, private_service_account_email = None\<rparr>"])
     (simp_all add: get_member_identifier_def get_projects_from_file_def
        strip_def isspace_def lower_def lower_char_def)

lemma lower_examples:
  "lower ''YES'' = ''yes''" "lower ''no'' = ''no''" "lower ''Nope'' = ''nope''"
  by code_simp+

text \<open>
  C2 as stated fails: after the answer \<open>no\<close> the exit status is 0, not a
  non-zero one; and the answer \<open>YES\<close>, which is not \<open>yes\<close>, does not abort.
\<close>

theorem granter_declined_counterexample:
  "granter
     \<lparr>arg_all_projects = False, arg_projects_file = ''projects.txt'',
      arg_user_email = Some ''alice@example.com'', arg_service_account = None,
      arg_role = ''roles/viewer'', arg_max_workers = 100, arg_dry_run = False,
      arg_check_only = False\<rparr>
     \<lparr>env_credential = Some \<lparr>service_account_email = None, private_service_account_email = None\<rparr>,
      env_userinfo = Inr None, env_listing = (\<lambda>req. Inl HttpError),
      env_files = [''projects.txt'' \<mapsto> ''proj-a''],
      env_input = Some ''no'', env_schedule = []\<rparr>
     \<lparr>policies = [''proj-a'' \<mapsto> \<lparr>policy_bindings = None, policy_etag = None\<rparr>],
      faults = [], api_calls = [], success_count = 0, failure_count = 0,
      already_granted_count = 0, errors_log = []\<rparr>
   = Some (0,
     \<lparr>policies = [''proj-a'' \<mapsto> \<lparr>policy_bindings = None, policy_etag = None\<rparr>],
      faults = [], api_calls = [], success_count = 0, failure_count = 0,
      already_granted_count = 0, errors_log = []\<rparr>) \<and>
   confirm
     \<lparr>arg_all_projects = False, arg_projects_file = ''projects.txt'',
      arg_user_email = Some ''alice@example.com'', arg_service_account = None,
      arg_role = ''roles/viewer'', arg_max_workers = 100, arg_dry_run = False,
      arg_check_only = False\<rparr> (Some ''YES'') = None"
  by (simp add: granter_def main_def confirm_def get_member_identifier_def
        get_projects_from_file_def strip_def isspace_def lower_examples)

section \<open>Claims about the policy update\<close>

lemma merge_member_role [simp]: "binding_role (merge_member member role b) = binding_role b"
  by (simp add: merge_member_def)

lemma merge_member_other:
  "\<forall>b \<in> set bs. binding_role b \<noteq> Some role \<Longrightarrow> map (merge_member member role) bs = bs"
  by (induction bs) (simp_all add: merge_member_def)

lemma add_member_roles:
  "add_member bs member role = Inr (bs', found) \<Longrightarrow> map binding_role bs' = map binding_role bs"
proof (induction bs arbitrary: bs' found)
  case Nil
  then show ?case by simp
next
  case (Cons b bs)
  then show ?case
    by (auto split: option.splits if_splits sum.splits prod.splits)
qed

lemma add_member_found:
  "add_member bs member role = Inr (bs', found) \<Longrightarrow>
   found = (\<exists>b \<in> set bs. binding_role b = Some role)"
proof (induction bs arbitrary: bs' found)
  case Nil
  then show ?case by auto
next
  case (Cons b bs)
  then show ?case
    by (auto split: option.splits if_splits sum.splits prod.splits)
qed

lemma add_member_not_found:
  "add_member bs member role = Inr (bs', False) \<Longrightarrow> bs' = bs"
proof (induction bs arbitrary: bs')
  case Nil
  then show ?case by simp
next
  case (Cons b bs)
  then show ?case
    by (auto split: option.splits if_splits sum.splits prod.splits)
qed

lemma add_member_unique:
  assumes "distinct (map binding_role bs)"
    and "\<forall>b \<in> set bs. binding_role b \<noteq> None \<and> binding_members b \<noteq> None"
  shows "add_member bs member role =
           Inr (map (merge_member member role) bs, \<exists>b \<in> set bs. binding_role b = Some role)"
  using assms
proof (induction bs)
  case Nil
  then show ?case by simp
next
  case (Cons b bs)
  from Cons.prems obtain r ms where b: "binding_role b = Some r" "binding_members b = Some ms"
    by auto
  show ?case
  proof (cases "r = role")
    case True
    with Cons.prems b have "\<forall>x \<in> set bs. binding_role x \<noteq> Some role"
      by (metis distinct.simps(2) image_eqI list.simps(9) set_map)
    then have tl: "map (merge_member member role) bs = bs" by (rule merge_member_other)
    have hd: "merge_member member role b =
        (if member \<notin> set ms then b\<lparr>binding_members := Some (ms @ [member])\<rparr> else b)"
      using True b by (simp add: merge_member_def get_members_def)
    from True b show ?thesis by (simp add: tl hd get_members_def)
  next
    case False
    from Cons.prems have "add_member bs member role =
           Inr (map (merge_member member role) bs, \<exists>b \<in> set bs. binding_role b = Some role)"
      by (intro Cons.IH) simp_all
    moreover have "merge_member member role b = b"
      using False b by (simp add: merge_member_def)
    ultimately show ?thesis using False b by simp
  qed
qed

lemma distinct_map_filter_one:
  "distinct (map f xs) \<Longrightarrow> \<exists>x \<in> set xs. f x = v \<Longrightarrow> length (filter (\<lambda>x. f x = v) xs) = 1"
proof (induction xs)
  case Nil
  then show ?case by simp
next
  case (Cons a xs)
  show ?case
  proof (cases "f a = v")
    case True
    with Cons.prems(1) have "\<forall>x \<in> set xs. f x \<noteq> v" by (auto simp: image_iff)
    then have "filter (\<lambda>x. f x = v) xs = []" by (simp add: filter_empty_conv)
    with True show ?thesis by simp
  next
    case False
    with Cons show ?thesis by auto
  qed
qed

lemma update_policy_roles_unique:
  assumes "update_policy p member role = Inr p'" and "roles_unique p"
  shows "roles_unique p'"
proof -
  from assms(1) obtain bs found where
    am: "add_member (get_bindings p) member role = Inr (bs, found)"
    by (auto simp: update_policy_def split: sum.splits)
  note r = add_member_roles [OF am] and f = add_member_found [OF am]
  show ?thesis
  proof (cases found)
    case True
    with assms am r show ?thesis
      by (auto simp: update_policy_def roles_unique_def get_bindings_def)
  next
    case False
    with f have "Some role \<notin> set (map binding_role (get_bindings p))" by auto
    with False assms am r show ?thesis
      by (auto simp: update_policy_def roles_unique_def get_bindings_def)
  qed
qed

text \<open>
  C9. For a policy in which no role has two bindings (its bindings complete, as the API
  returns them), the update succeeds; when the policy has a binding for the target
  role the member is merged into that binding (appended unless already listed) and
  nothing else changes; otherwise exactly one binding, with the member alone, is
  appended. The policy to be written again has no role with two bindings, has exactly
  one binding for the target role, and that binding lists the member.
\<close>

theorem update_policy_one_binding_per_role:
  assumes "roles_unique p" and "complete_bindings p"
  shows "\<exists>p'. update_policy p member role = Inr p' \<and>
           roles_unique p' \<and>
           policy_etag p' = policy_etag p \<and>
           get_bindings p' =
             (if has_binding p role then map (merge_member member role) (get_bindings p)
              else get_bindings p @
                     [\<lparr>binding_role = Some role, binding_members = Some [member],
                       binding_condition = None\<rparr>]) \<and>
           length (filter (\<lambda>b. binding_role b = Some role) (get_bindings p')) = 1 \<and>
           (\<forall>b \<in> set (get_bindings p'). binding_role b = Some role \<longrightarrow> member \<in> set (get_members b))"
proof -
  have am: "add_member (get_bindings p) member role =
      Inr (map (merge_member member role) (get_bindings p), has_binding p role)"
    using add_member_unique [of "get_bindings p" member role] assms
    by (simp add: roles_unique_def complete_bindings_def has_binding_def)
  define p' where "p' = (if has_binding p role
      then p\<lparr>policy_bindings := Some (map (merge_member member role) (get_bindings p))\<rparr>
      else p\<lparr>policy_bindings := Some (map (merge_member member role) (get_bindings p) @
             [\<lparr>binding_role = Some role, binding_members = Some [member],
               binding_condition = None\<rparr>])\<rparr>)"
  have up: "update_policy p member role = Inr p'"
    by (simp add: update_policy_def am p'_def)
  have same: "\<not> has_binding p role \<Longrightarrow> map (merge_member member role) (get_bindings p) = get_bindings p"
    by (rule merge_member_other) (simp add: has_binding_def)
  have gb: "get_bindings p' =
             (if has_binding p role then map (merge_member member role) (get_bindings p)
              else get_bindings p @
                     [\<lparr>binding_role = Some role, binding_members = Some [member],
                       binding_condition = None\<rparr>])"
    using same by (simp add: p'_def get_bindings_def)
  have ru: "roles_unique p'" using up assms(1) by (rule update_policy_roles_unique)
  have et: "policy_etag p' = policy_etag p" by (simp add: p'_def)
  have mem: "\<forall>b \<in> set (get_bindings p'). binding_role b = Some role \<longrightarrow> member \<in> set (get_members b)"
    unfolding gb by (auto simp: merge_member_def get_members_def has_binding_def)
  have ex: "\<exists>b \<in> set (get_bindings p'). binding_role b = Some role"
    unfolding gb by (auto simp: has_binding_def)
  have one: "length (filter (\<lambda>b. binding_role b = Some role) (get_bindings p')) = 1"
    using ru ex unfolding roles_unique_def by (rule distinct_map_filter_one)
  from up ru et gb one mem show ?thesis by blast
qed

text \<open>A policy with a binding for the target role: the member is merged into it.\<close>

theorem update_policy_one_binding_per_role_witness:
  "roles_unique
     \<lparr>policy_bindings =
        Some [\<lparr>binding_role = Some ''roles/owner'', binding_members = Some [''user:carol@example.com''],
               binding_condition = None\<rparr>,
              \<lparr>binding_role = Some ''roles/viewer'', binding_members = Some [''user:bob@example.com''],
               binding_condition = None\<rparr>],
      policy_etag = Some ''BwX''\<rparr> \<and>
   complete_bindings
     \<lparr>policy_bindings =
        Some [\<lparr>binding_role = Some ''roles/owner'', binding_members = Some [''user:carol@example.com''],
               binding_condition = None\<rparr>,
              \<lparr>binding_role = Some ''roles/viewer'', binding_members = Some [''user:bob@example.com''],
               binding_condition = None\<rparr>],
      policy_etag = Some ''BwX''\<rparr> \<and>
   (\<exists>p'. update_policy
     \<lparr>policy_bindings =
        Some [\<lparr>binding_role = Some ''roles/owner'', binding_members = Some [''user:carol@example.com''],
               binding_condition = None\<rparr>,
              \<lparr>binding_role = Some ''roles/viewer'', binding_members = Some [''user:bob@example.com''],
               binding_condition = None\<rparr>],
      policy_etag = Some ''BwX''\<rparr> ''user:alice@example.com'' ''roles/viewer'' = Inr p' \<and>
     roles_unique p' \<and>
     get_bindings p' =
        [\<lparr>binding_role = Some ''roles/owner'', binding_members = Some [''user:carol@example.com''],
          binding_condition = None\<rparr>,
         \<lparr>binding_role = Some ''roles/viewer'',
          binding_members = Some [''user:bob@example.com'', ''user:alice@example.com''],
          binding_condition = None\<rparr>])"
proof -
  let ?p = "\<lparr>policy_bindings =
        Some [\<lparr>binding_role = Some ''roles/owner'', binding_members = Some [''user:carol@example.com''],
               binding_condition = None\<rparr>,
              \<lparr>binding_role = Some ''roles/viewer'', binding_members = Some [''user:bob@example.com''],
               binding_condition = None\<rparr>],
      policy_etag = Some ''BwX''\<rparr>"
  have u: "roles_unique ?p" by (simp add: roles_unique_def get_bindings_def)
  have c: "complete_bindings ?p" by (simp add: complete_bindings_def get_bindings_def)
  have h: "has_binding ?p ''roles/viewer''" by (simp add: has_binding_def get_bindings_def)
  from update_policy_one_binding_per_role [OF u c, of "''user:alice@example.com''" "''roles/viewer''"] h
  have "\<exists>p'. update_policy ?p ''user:alice@example.com'' ''roles/viewer'' = Inr p' \<and>
     roles_unique p' \<and>
     get_bindings p' = map (merge_member ''user:alice@example.com'' ''roles/viewer'') (get_bindings ?p)"
    by auto
  then show ?thesis using u c by (simp add: get_bindings_def merge_member_def get_members_def)
qed

section \<open>Properties of the API calls and of the worker pool\<close>

lemma run_task_Finished [simp]:
  "run_task a project_id member role n (Finished r) s = (Finished r, s)"
  by (induction n) simp_all

lemma grant_iam_permission_steps:
  "run_task a project_id member role 3 Submitted s =
     (case grant_iam_permission a project_id member role s of (r, s') \<Rightarrow> (Finished r, s'))"
  by (simp add: numeral_3_eq_3 grant_iam_permission_def
           split: prod.splits sum.splits if_splits)

lemma getIamPolicy_frame:
  "getIamPolicy resource s = (x, s') \<Longrightarrow>
   policies s' = policies s \<and> writes s' = writes s \<and>
   success_count s' = success_count s \<and> failure_count s' = failure_count s \<and>
   already_granted_count s' = already_granted_count s \<and> errors_log s' = errors_log s"
  by (auto simp: getIamPolicy_def next_fault_def writes_def Let_def
           split: list.splits if_splits option.splits)

lemma check_permission_frame:
  "check_permission project_id member role s = (x, s') \<Longrightarrow>
   policies s' = policies s \<and> writes s' = writes s \<and>
   success_count s' = success_count s \<and> failure_count s' = failure_count s \<and>
   already_granted_count s' = already_granted_count s"
  by (auto simp: check_permission_def log_error_def writes_def
           split: prod.splits sum.splits dest!: getIamPolicy_frame)

lemma task_step_dry:
  assumes "arg_dry_run a \<or> arg_check_only a" and "dry_ok t"
    and "task_step a project_id member role t s = (t', s')"
  shows "dry_ok t' \<and> t' \<noteq> Submitted \<and> policies s' = policies s \<and> writes s' = writes s \<and>
         success_count s' = success_count s"
proof (cases t)
  case Submitted
  obtain x s1 where c: "check_permission project_id member role s = (x, s1)"
    by (cases "check_permission project_id member role s")
  note f = check_permission_frame [OF c]
  from assms Submitted c f show ?thesis
    by (auto simp: dry_ok_def writes_def split: if_splits)
next
  case (Finished r)
  with assms show ?thesis by (auto simp: dry_ok_def)
qed (use assms in \<open>simp_all add: dry_ok_def\<close>)

lemma pool_stepE:
  assumes "unfinished futures \<noteq> []"
  obtains i t' s' where "i < length futures" and "remaining (snd (futures ! i)) \<noteq> 0"
    and "task_step a (fst (futures ! i)) member role (snd (futures ! i)) s = (t', s')"
    and "pool_step a member role c futures completed s =
           (futures[i := (fst (futures ! i), t')],
            (case t' of Finished r \<Rightarrow> completed @ [r] | _ \<Rightarrow> completed), s')"
proof -
  let ?i = "unfinished futures ! (c mod length (unfinished futures))"
  have "?i \<in> set (unfinished futures)" using assms by (rule unfinished_pick)
  then have i: "?i < length futures" "remaining (snd (futures ! ?i)) \<noteq> 0"
    by (simp_all add: unfinished_mem)
  obtain t' s' where ts:
    "task_step a (fst (futures ! ?i)) member role (snd (futures ! ?i)) s = (t', s')"
    by (cases "task_step a (fst (futures ! ?i)) member role (snd (futures ! ?i)) s")
  then have "pool_step a member role c futures completed s =
           (futures[?i := (fst (futures ! ?i), t')],
            (case t' of Finished r \<Rightarrow> completed @ [r] | _ \<Rightarrow> completed), s')"
    by (simp add: pool_step_def Let_def)
  with i ts show ?thesis by (rule that)
qed

lemma run_pool_invariant:
  assumes "I futures completed s"
    and "\<And>c futures completed s futures' completed' s'.
           I futures completed s \<Longrightarrow> unfinished futures \<noteq> [] \<Longrightarrow>
           pool_step a member role c futures completed s = (futures', completed', s') \<Longrightarrow>
           I futures' completed' s'"
  shows "\<exists>futures'. unfinished futures' = [] \<and>
           I futures' (fst (run_pool a member role sched futures completed s))
             (snd (run_pool a member role sched futures completed s))"
  using assms
proof (induction a member role sched futures completed s rule: run_pool.induct)
  case (1 a member role sched futures completed s)
  show ?case
  proof (cases "unfinished futures = []")
    case True
    with "1.prems"(1) show ?thesis by (auto simp: run_pool.simps)
  next
    case False
    obtain futures' completed' s' where ps:
      "pool_step a member role (case sched of [] \<Rightarrow> 0 | c # cs \<Rightarrow> c) futures completed s =
         (futures', completed', s')"
      by (cases "pool_step a member role (case sched of [] \<Rightarrow> 0 | c # cs \<Rightarrow> c) futures completed s")
    have I': "I futures' completed' s'" using "1.prems"(1) False ps by (rule "1.prems"(2))
    from "1.IH" [OF False ps [symmetric] refl I' "1.prems"(2)] False ps
    show ?thesis by (simp add: run_pool.simps [of a member role sched futures])
  qed
qed

lemma unfinished_Nil_iff: "unfinished futures = [] \<longleftrightarrow> (\<forall>f \<in> set futures. remaining (snd f) = 0)"
  by (auto simp: unfinished_def filter_empty_conv all_set_conv_all_nth)

lemma result_of_remaining: "remaining t \<noteq> 0 \<Longrightarrow> result_of t = []"
  by (cases t) simp_all

lemma result_of_done: "remaining t = 0 \<Longrightarrow> \<exists>r. t = Finished r"
  by (cases t) simp_all

lemma finished_results_update:
  "i < length futures \<Longrightarrow> result_of (snd (futures ! i)) = [] \<Longrightarrow>
   mset (finished_results (futures[i := (p, t')])) =
     mset (finished_results futures) + mset (result_of t')"
proof (induction futures arbitrary: i)
  case Nil
  then show ?case by simp
next
  case (Cons f fs)
  show ?case
  proof (cases i)
    case 0
    with Cons.prems show ?thesis by (simp add: finished_results_def)
  next
    case (Suc j)
    with Cons.prems have "mset (finished_results (fs[j := (p, t')])) =
        mset (finished_results fs) + mset (result_of t')"
      by (intro Cons.IH) simp_all
    with Suc show ?thesis by (simp add: finished_results_def)
  qed
qed

lemma completed_update:
  "mset (case t' of Finished r \<Rightarrow> completed @ [r] | _ \<Rightarrow> completed) =
     mset completed + mset (result_of t')"
  by (cases t') simp_all

lemma task_step_project_id:
  "task_step a project_id member role t s = (Finished r, s') \<Longrightarrow> remaining t \<noteq> 0 \<Longrightarrow>
   result_project_id r = project_id"
  by (cases t) (auto simp: grant_failed_def split: prod.splits sum.splits if_splits)

lemma one_result_each_step:
  assumes inv: "one_result_each projects futures completed"
    and un: "unfinished futures \<noteq> []"
    and ps: "pool_step a member role c futures completed s = (futures', completed', s')"
  shows "one_result_each projects futures' completed'"
proof -
  from un obtain i t' s1 where i: "i < length futures" and r: "remaining (snd (futures ! i)) \<noteq> 0"
    and ts: "task_step a (fst (futures ! i)) member role (snd (futures ! i)) s = (t', s1)"
    and eq: "pool_step a member role c futures completed s =
           (futures[i := (fst (futures ! i), t')],
            (case t' of Finished r \<Rightarrow> completed @ [r] | _ \<Rightarrow> completed), s1)"
    by (rule pool_stepE)
  from ps eq have f': "futures' = futures[i := (fst (futures ! i), t')]"
    and c': "completed' = (case t' of Finished r \<Rightarrow> completed @ [r] | _ \<Rightarrow> completed)"
    by simp_all
  have "map fst futures' = (map fst futures)[i := map fst futures ! i]"
    using i by (simp add: f' map_update)
  then have "map fst futures' = map fst futures" by (simp only: list_update_id)
  with inv have 1: "map fst futures' = projects" by (simp add: one_result_each_def)
  have 2: "mset completed' = mset (finished_results futures')"
    using inv finished_results_update [OF i result_of_remaining [OF r], of "fst (futures ! i)" t']
    by (simp add: f' c' completed_update one_result_each_def)
  have 3: "\<forall>f \<in> set futures'. \<forall>r. snd f = Finished r \<longrightarrow> result_project_id r = fst f"
  proof (intro ballI allI impI)
    fix f r' assume f: "f \<in> set futures'" and fin: "snd f = Finished r'"
    from f have "f = (fst (futures ! i), t') \<or> f \<in> set futures"
      unfolding f' using set_update_subset_insert by fastforce
    then show "result_project_id r' = fst f"
    proof
      assume "f = (fst (futures ! i), t')"
      with fin ts r show ?thesis using task_step_project_id by fastforce
    next
      assume "f \<in> set futures"
      with inv fin show ?thesis by (simp add: one_result_each_def)
    qed
  qed
  from 1 2 3 show ?thesis by (simp add: one_result_each_def)
qed

lemma finished_results_all_done:
  assumes "unfinished futures = []"
    and "\<forall>f \<in> set futures. \<forall>r. snd f = Finished r \<longrightarrow> result_project_id r = fst f"
  shows "map result_project_id (finished_results futures) = map fst futures"
  using assms
proof (induction futures)
  case Nil
  then show ?case by (simp add: finished_results_def)
next
  case (Cons f fs)
  from Cons.prems(1) have d: "remaining (snd f) = 0" and u: "unfinished fs = []"
    by (simp_all add: unfinished_Nil_iff)
  from d obtain r where r: "snd f = Finished r" using result_of_done by blast
  with Cons.prems(2) have "result_project_id r = fst f" by simp
  moreover from Cons.IH [OF u] Cons.prems(2)
  have "map result_project_id (finished_results fs) = map fst fs" by simp
  ultimately show ?case using r by (simp add: finished_results_def)
qed

lemma outcomes_total:
  "outcomes granted rs + outcomes already_granted rs + outcomes failed rs + outcomes would_grant rs
     = length rs"
proof (induction rs)
  case Nil
  then show ?case by (simp add: outcomes_def)
next
  case (Cons r rs)
  then show ?case by (cases "result_status r") (simp_all add: outcomes_def)
qed

section \<open>Claims about the worker pool\<close>

text \<open>
  C7. For every schedule of the pool (every interleaving of the tasks' API calls) and
  every initial state, the run ends, and the results it has produced carry exactly the
  submitted projects, each as often as it was submitted: one terminal outcome per input
  project. Hence the numbers of \<open>granted\<close>, \<open>already_granted\<close>, \<open>failed\<close> and
  \<open>would_grant\<close> outcomes add up to the number of input projects.
\<close>

theorem process_projects_parallel_one_outcome_each:
  "mset (map result_project_id (fst (process_projects_parallel a sched projects member role s))) =
     mset projects \<and>
   outcomes granted (fst (process_projects_parallel a sched projects member role s)) +
   outcomes already_granted (fst (process_projects_parallel a sched projects member role s)) +
   outcomes failed (fst (process_projects_parallel a sched projects member role s)) +
   outcomes would_grant (fst (process_projects_parallel a sched projects member role s)) =
     length projects"
proof -
  let ?futures = "map (\<lambda>project_id. (project_id, Submitted)) projects"
  let ?res = "fst (process_projects_parallel a sched projects member role s)"
  have init: "one_result_each projects ?futures []"
    by (simp add: one_result_each_def finished_results_def o_def)
  have "\<exists>futures'. unfinished futures' = [] \<and>
      one_result_each projects futures' (fst (run_pool a member role sched ?futures [] s))"
    by (rule run_pool_invariant [where I = "\<lambda>f c s. one_result_each projects f c"],
        rule init, rule one_result_each_step)
  then obtain futures' where u: "unfinished futures' = []"
    and inv: "one_result_each projects futures' ?res"
    unfolding process_projects_parallel_def by blast
  from inv have "mset (map result_project_id ?res) = mset (map result_project_id (finished_results futures'))"
    unfolding one_result_each_def by (metis mset_map)
  also have "\<dots> = mset (map fst futures')"
    using finished_results_all_done [OF u] inv by (simp add: one_result_each_def)
  also have "\<dots> = mset projects" using inv by (simp add: one_result_each_def)
  finally have m: "mset (map result_project_id ?res) = mset projects" .
  then have "length ?res = length projects"
    by (metis length_map size_mset)
  with m outcomes_total [of ?res] show ?thesis by simp
qed

section \<open>Claims about dry-run and check-only runs\<close>

lemma dry_pool_step:
  assumes dry: "arg_dry_run a \<or> arg_check_only a"
    and inv: "dry_pool s0 futures completed s"
    and un: "unfinished futures \<noteq> []"
    and ps: "pool_step a member role c futures completed s = (futures', completed', s')"
  shows "dry_pool s0 futures' completed' s'"
proof -
  from un obtain i t' s1 where i: "i < length futures"
    and ts: "task_step a (fst (futures ! i)) member role (snd (futures ! i)) s = (t', s1)"
    and eq: "pool_step a member role c futures completed s =
           (futures[i := (fst (futures ! i), t')],
            (case t' of Finished r \<Rightarrow> completed @ [r] | _ \<Rightarrow> completed), s1)"
    by (rule pool_stepE)
  from ps eq have f': "futures' = futures[i := (fst (futures ! i), t')]"
    and c': "completed' = (case t' of Finished r \<Rightarrow> completed @ [r] | _ \<Rightarrow> completed)"
    and s': "s' = s1"
    by simp_all
  from inv i have "dry_ok (snd (futures ! i))" by (simp add: dry_pool_def)
  from task_step_dry [OF dry this ts]
  have t': "dry_ok t'" and fr: "policies s1 = policies s" "writes s1 = writes s"
    "success_count s1 = success_count s"
    by simp_all
  have 1: "\<forall>f \<in> set futures'. dry_ok (snd f)"
  proof
    fix f assume "f \<in> set futures'"
    then have "f = (fst (futures ! i), t') \<or> f \<in> set futures"
      unfolding f' using set_update_subset_insert by fastforce
    with t' inv show "dry_ok (snd f)" by (auto simp: dry_pool_def)
  qed
  have 2: "\<forall>r \<in> set completed'. result_status r = already_granted \<or> result_status r = would_grant"
    using inv t' by (cases t') (auto simp: c' dry_pool_def dry_ok_def)
  from 1 2 fr inv show ?thesis by (simp add: dry_pool_def s')
qed

lemma grant_iam_permission_dry:
  assumes "arg_dry_run a \<or> arg_check_only a"
    and "check_permission project_id member role s = (has_permission, s1)"
  shows "grant_iam_permission a project_id member role s =
           (if has_permission = Some True
            then (\<lparr>result_project_id = project_id, result_status = already_granted,
                    result_message = ''Already has '' @ role\<rparr>,
                  s1\<lparr>already_granted_count := already_granted_count s1 + 1\<rparr>)
            else (\<lparr>result_project_id = project_id, result_status = would_grant,
                    result_message = ''Would grant '' @ role\<rparr>, s1))"
  using assms by (simp add: grant_iam_permission_def)

text \<open>
  C8. When the dry-run flag or the check-only flag is set, a call of
  \<open>grant_iam_permission\<close> never returns \<open>granted\<close>, issues no \<open>setIamPolicy\<close>
  request and leaves every policy as it is; when the check finds that the principal
  lacks the role, the outcome is \<open>would_grant\<close>. The same holds for a whole run of
  the pool under every schedule: no result is \<open>granted\<close>, no write is issued, no
  policy changes.
\<close>

theorem dry_run_never_grants_or_writes:
  assumes "arg_dry_run a \<or> arg_check_only a"
  shows "result_status (fst (grant_iam_permission a project_id member role s)) \<noteq> granted \<and>
         writes (snd (grant_iam_permission a project_id member role s)) = writes s \<and>
         policies (snd (grant_iam_permission a project_id member role s)) = policies s \<and>
         (fst (check_permission project_id member role s) = Some False \<longrightarrow>
            result_status (fst (grant_iam_permission a project_id member role s)) = would_grant) \<and>
         (\<forall>r \<in> set (fst (process_projects_parallel a sched projects member role s)).
            result_status r \<noteq> granted) \<and>
         writes (snd (process_projects_parallel a sched projects member role s)) = writes s \<and>
         policies (snd (process_projects_parallel a sched projects member role s)) = policies s"
proof -
  obtain hp s1 where c: "check_permission project_id member role s = (hp, s1)"
    by (cases "check_permission project_id member role s")
  note f = check_permission_frame [OF c]
  note g = grant_iam_permission_dry [OF assms c]
  have one: "result_status (fst (grant_iam_permission a project_id member role s)) \<noteq> granted \<and>
         writes (snd (grant_iam_permission a project_id member role s)) = writes s \<and>
         policies (snd (grant_iam_permission a project_id member role s)) = policies s \<and>
         (fst (check_permission project_id member role s) = Some False \<longrightarrow>
            result_status (fst (grant_iam_permission a project_id member role s)) = would_grant)"
    using f c by (simp add: g writes_def)
  let ?futures = "map (\<lambda>project_id. (project_id, Submitted)) projects"
  have init: "dry_pool s ?futures [] s" by (simp add: dry_pool_def dry_ok_def)
  have "\<exists>futures'. unfinished futures' = [] \<and>
      dry_pool s futures' (fst (run_pool a member role sched ?futures [] s))
        (snd (run_pool a member role sched ?futures [] s))"
    by (rule run_pool_invariant [where I = "dry_pool s"], rule init, rule dry_pool_step [OF assms])
  then obtain futures' where
    "dry_pool s futures' (fst (process_projects_parallel a sched projects member role s))
        (snd (process_projects_parallel a sched projects member role s))"
    unfolding process_projects_parallel_def by blast
  then have pool: "(\<forall>r \<in> set (fst (process_projects_parallel a sched projects member role s)).
            result_status r \<noteq> granted) \<and>
         writes (snd (process_projects_parallel a sched projects member role s)) = writes s \<and>
         policies (snd (process_projects_parallel a sched projects member role s)) = policies s"
    by (auto simp: dry_pool_def)
  from one pool show ?thesis by simp
qed

lemma example_check:
  "check_permission ''proj-a'' ''user:alice@example.com'' ''roles/viewer'' example_state =
     (Some False, example_state\<lparr>api_calls := [GetIamPolicy ''proj-a'']\<rparr>)"
  by (simp add: check_permission_def getIamPolicy_def next_fault_def example_state_def
        example_policy_def get_bindings_def get_members_def)

text \<open>A dry run on a project where the principal lacks the role.\<close>

theorem dry_run_never_grants_or_writes_witness:
  "(arg_dry_run (example_args\<lparr>arg_dry_run := True\<rparr>) \<or>
    arg_check_only (example_args\<lparr>arg_dry_run := True\<rparr>)) \<and>
   result_status (fst (grant_iam_permission (example_args\<lparr>arg_dry_run := True\<rparr>) ''proj-a''
     ''user:alice@example.com'' ''roles/viewer'' example_state)) = would_grant \<and>
   writes (snd (grant_iam_permission (example_args\<lparr>arg_dry_run := True\<rparr>) ''proj-a''
     ''user:alice@example.com'' ''roles/viewer'' example_state)) = []"
proof -
  have d: "arg_dry_run (example_args\<lparr>arg_dry_run := True\<rparr>) \<or>
    arg_check_only (example_args\<lparr>arg_dry_run := True\<rparr>)" by simp
  have w: "writes example_state = []" by (simp add: writes_def example_state_def)
  from dry_run_never_grants_or_writes [OF d, of "''proj-a''" "''user:alice@example.com''"
      "''roles/viewer''" example_state]
  show ?thesis using d w by (simp add: example_check)
qed

section \<open>Claims about a failed permission check\<close>

text \<open>
  C1, evaluated on the code. The first API call of the run, the policy read of
  \<open>check_permission\<close>, faults: the check logs the error and returns \<open>None\<close>.
  \<open>grant_iam_permission\<close> tests only \<open>has_permission is True\<close>, so the run goes on
  to read, update and write the policy: the outcome is \<open>granted\<close>, one
  \<open>setIamPolicy\<close> request is issued, the error stays in the log and the failure
  counter is not touched. In a dry run the same failed check yields \<open>would_grant\<close>.
  The claim asks for the outcome \<open>failed\<close> with the grant skipped.
\<close>

theorem check_error_falls_through_to_grant:
  "fst (check_permission ''proj-a'' ''user:alice@example.com'' ''roles/viewer''
          (example_state\<lparr>faults := [True]\<rparr>)) = None \<and>
   result_status (fst (grant_iam_permission example_args ''proj-a'' ''user:alice@example.com''
          ''roles/viewer'' (example_state\<lparr>faults := [True]\<rparr>))) = granted \<and>
   writes (snd (grant_iam_permission example_args ''proj-a'' ''user:alice@example.com''
          ''roles/viewer'' (example_state\<lparr>faults := [True]\<rparr>))) =
     [SetIamPolicy ''proj-a''
        \<lparr>policy_bindings =
           Some [\<lparr>binding_role = Some ''roles/owner'',
                  binding_members = Some [''user:carol@example.com''],
                  binding_condition = None\<rparr>,
                 \<lparr>binding_role = Some ''roles/viewer'',
                  binding_members = Some [''user:alice@example.com''],
                  binding_condition = None\<rparr>],
         policy_etag = Some ''BwX''\<rparr>] \<and>
   errors_log (snd (grant_iam_permission example_args ''proj-a'' ''user:alice@example.com''
          ''roles/viewer'' (example_state\<lparr>faults := [True]\<rparr>))) =
     [''Project: proj-a - Failed to check permissions: HttpError''] \<and>
   failure_count (snd (grant_iam_permission example_args ''proj-a'' ''user:alice@example.com''
          ''roles/viewer'' (example_state\<lparr>faults := [True]\<rparr>))) = 0 \<and>
   result_status (fst (grant_iam_permission (example_args\<lparr>arg_dry_run := True\<rparr>) ''proj-a''
          ''user:alice@example.com'' ''roles/viewer'' (example_state\<lparr>faults := [True]\<rparr>))) =
     would_grant"
  by (simp add: grant_iam_permission_def check_permission_def getIamPolicy_def setIamPolicy_def
        next_fault_def log_error_def update_policy_def example_state_def example_policy_def
        example_args_def get_bindings_def get_members_def writes_def)

section \<open>Claims about granting twice\<close>

lemma setIamPolicy_frame:
  "setIamPolicy resource p s = (x, s') \<Longrightarrow>
   success_count s' = success_count s \<and> failure_count s' = failure_count s \<and>
   already_granted_count s' = already_granted_count s \<and> errors_log s' = errors_log s \<and>
   (case x of Inl ex \<Rightarrow> policies s' = policies s
            | Inr u \<Rightarrow> policies s' = (policies s)(resource \<mapsto> p))"
  by (auto simp: setIamPolicy_def next_fault_def Let_def
           split: list.splits if_splits option.splits)

lemma getIamPolicy_result:
  "getIamPolicy resource s = (Inr p, s') \<Longrightarrow> policies s resource = Some p"
  by (auto simp: getIamPolicy_def next_fault_def Let_def
           split: list.splits if_splits option.splits)

lemma getIamPolicy_no_fault:
  "\<not> fst (next_fault s) \<Longrightarrow> policies s resource = Some p \<Longrightarrow>
   fst (getIamPolicy resource s) = Inr p"
  by (auto simp: getIamPolicy_def next_fault_def Let_def split: list.splits)

lemma grant_iam_permission_granted:
  assumes "grant_iam_permission a project_id member role s = (res, s')"
    and "result_status res = granted"
  shows "\<exists>p0 p1. policies s project_id = Some p0 \<and> update_policy p0 member role = Inr p1 \<and>
           policies s' = (policies s)(project_id \<mapsto> p1) \<and>
           \<not> arg_dry_run a \<and> \<not> arg_check_only a"
proof -
  obtain hp sa where c: "check_permission project_id member role s = (hp, sa)"
    by (cases "check_permission project_id member role s")
  note cf = check_permission_frame [OF c]
  obtain x sb where g: "getIamPolicy project_id sa = (x, sb)"
    by (cases "getIamPolicy project_id sa")
  note gf = getIamPolicy_frame [OF g]
  from assms c g have live: "\<not> arg_dry_run a \<and> \<not> arg_check_only a" and hp: "hp \<noteq> Some True"
    by (auto simp: grant_iam_permission_def split: if_splits)
  from assms c g live hp obtain p0 where x: "x = Inr p0"
    by (cases x) (auto simp: grant_iam_permission_def grant_failed_def)
  from g x have p0: "policies sa project_id = Some p0" by (simp add: getIamPolicy_result)
  from assms c g live hp x obtain p1 where u: "update_policy p0 member role = Inr p1"
    by (cases "update_policy p0 member role") (auto simp: grant_iam_permission_def grant_failed_def)
  obtain y sc where w: "setIamPolicy project_id p1 sb = (y, sc)"
    by (cases "setIamPolicy project_id p1 sb")
  note wf = setIamPolicy_frame [OF w]
  from assms c g live hp x u w obtain v where y: "y = Inr v" and s': "s' = sc\<lparr>success_count := success_count sc + 1\<rparr>"
    by (cases y) (auto simp: grant_iam_permission_def grant_failed_def)
  from wf y have "policies sc = (policies sb)(project_id \<mapsto> p1)" by simp
  with cf gf p0 u live s' show ?thesis by simp
qed

lemma add_member_scan:
  "add_member bs member role = Inr (bs', found) \<Longrightarrow>
   scan_bindings (bs' @ xs) member role =
     (if found then Inr True else scan_bindings xs member role)"
proof (induction bs arbitrary: bs' found)
  case Nil
  then show ?case by auto
next
  case (Cons b bs)
  then show ?case
    by (auto simp: get_members_def split: option.splits if_splits sum.splits prod.splits)
qed

lemma update_policy_scan:
  assumes "update_policy p member role = Inr p'"
  shows "scan_bindings (get_bindings p') member role = Inr True"
proof -
  from assms obtain bs found where
    am: "add_member (get_bindings p) member role = Inr (bs, found)"
    by (auto simp: update_policy_def split: sum.splits)
  show ?thesis
  proof (cases found)
    case True
    with assms am have "get_bindings p' = bs" by (auto simp: update_policy_def get_bindings_def)
    with add_member_scan [OF am, of "[]"] True show ?thesis by simp
  next
    case False
    with assms am have "get_bindings p' = bs @ [\<lparr>binding_role = Some role,
        binding_members = Some [member], binding_condition = None\<rparr>]"
      by (auto simp: update_policy_def get_bindings_def)
    with add_member_scan [OF am, of "[\<lparr>binding_role = Some role,
        binding_members = Some [member], binding_condition = None\<rparr>]"] False
    show ?thesis by (simp add: get_members_def)
  qed
qed

lemma add_member_entries:
  "add_member bs member role = Inr (bs', found) \<Longrightarrow>
   length (filter (\<lambda>b. binding_role b = Some role) bs') =
     length (filter (\<lambda>b. binding_role b = Some role) bs) \<and>
   sum_list (map (\<lambda>b. count_list (get_members b) member)
      (filter (\<lambda>b. binding_role b = Some role) bs')) \<le>
   sum_list (map (\<lambda>b. count_list (get_members b) member)
      (filter (\<lambda>b. binding_role b = Some role) bs)) + 1 \<and>
   (sum_list (map (\<lambda>b. count_list (get_members b) member)
      (filter (\<lambda>b. binding_role b = Some role) bs)) = 0 \<longrightarrow> found \<longrightarrow>
    sum_list (map (\<lambda>b. count_list (get_members b) member)
      (filter (\<lambda>b. binding_role b = Some role) bs')) = 1) \<and>
   (\<not> found \<longrightarrow> filter (\<lambda>b. binding_role b = Some role) bs = [])"
proof (induction bs arbitrary: bs' found)
  case Nil
  then show ?case by auto
next
  case (Cons b bs)
  show ?case
  proof (cases "binding_role b")
    case None
    with Cons.prems show ?thesis by simp
  next
    case (Some r)
    show ?thesis
    proof (cases "r = role")
      case True
      show ?thesis
      proof (cases "member \<in> set (get_members b)")
        case m: True
        with True Some Cons.prems have "bs' = b # bs" "found" by auto
        moreover from m have "count_list (get_members b) member \<noteq> 0"
          by (simp add: count_list_0_iff)
        ultimately show ?thesis using True Some by simp
      next
        case m: False
        with True Some Cons.prems obtain ms where ms: "binding_members b = Some ms"
          and bs': "bs' = b\<lparr>binding_members := Some (ms @ [member])\<rparr> # bs" and f: "found"
          by (auto split: option.splits)
        from m ms have "count_list ms member = 0"
          by (simp add: get_members_def count_list_0_iff)
        with True Some ms bs' f show ?thesis by (simp add: get_members_def)
      qed
    next
      case False
      with Some Cons.prems obtain rest' where
        r: "add_member bs member role = Inr (rest', found)" and bs': "bs' = b # rest'"
        by (auto split: sum.splits prod.splits)
      from Cons.IH [OF r] False Some bs' show ?thesis by simp
    qed
  qed
qed

lemma update_policy_entries:
  assumes "update_policy p member role = Inr p'"
  shows "length (role_bindings p' role) = max 1 (length (role_bindings p role)) \<and>
         member_entries p' role member \<le> member_entries p role member + 1 \<and>
         (member_entries p role member = 0 \<longrightarrow> member_entries p' role member = 1)"
proof -
  from assms obtain bs found where
    am: "add_member (get_bindings p) member role = Inr (bs, found)"
    by (auto simp: update_policy_def split: sum.splits)
  note e = add_member_entries [OF am] and fd = add_member_found [OF am]
  show ?thesis
  proof (cases found)
    case True
    with assms am have gb: "get_bindings p' = bs" by (auto simp: update_policy_def get_bindings_def)
    from True fd have "filter (\<lambda>b. binding_role b = Some role) (get_bindings p) \<noteq> []"
      by (auto simp: filter_empty_conv)
    then have "1 \<le> length (filter (\<lambda>b. binding_role b = Some role) (get_bindings p))"
      by (cases "filter (\<lambda>b. binding_role b = Some role) (get_bindings p)") simp_all
    with e True show ?thesis by (simp add: role_bindings_def member_entries_def gb)
  next
    case False
    with assms am have gb: "get_bindings p' = bs @ [\<lparr>binding_role = Some role,
        binding_members = Some [member], binding_condition = None\<rparr>]"
      by (auto simp: update_policy_def get_bindings_def)
    from False am have "bs = get_bindings p" by (simp add: add_member_not_found)
    with e False show ?thesis
      by (simp add: role_bindings_def member_entries_def gb get_members_def)
  qed
qed

lemma example_grant:
  "grant_iam_permission example_args ''proj-a'' ''user:alice@example.com'' ''roles/viewer''
     example_state =
   (\<lparr>result_project_id = ''proj-a'', result_status = granted,
     result_message = ''Successfully granted roles/viewer''\<rparr>,
    \<lparr>policies = [''proj-a'' \<mapsto>
        \<lparr>policy_bindings =
           Some [\<lparr>binding_role = Some ''roles/owner'',
                  binding_members = Some [''user:carol@example.com''],
                  binding_condition = None\<rparr>,
                 \<lparr>binding_role = Some ''roles/viewer'',
                  binding_members = Some [''user:alice@example.com''],
                  binding_condition = None\<rparr>],
         policy_etag = Some ''BwX''\<rparr>],
     faults = [],
     api_calls = [GetIamPolicy ''proj-a'', GetIamPolicy ''proj-a'',
        SetIamPolicy ''proj-a''
          \<lparr>policy_bindings =
             Some [\<lparr>binding_role = Some ''roles/owner'',
                    binding_members = Some [''user:carol@example.com''],
                    binding_condition = None\<rparr>,
                   \<lparr>binding_role = Some ''roles/viewer'',
                    binding_members = Some [''user:alice@example.com''],
                    binding_condition = None\<rparr>],
           policy_etag = Some ''BwX''\<rparr>],
     success_count = 1, failure_count = 0, already_granted_count = 0, errors_log = []\<rparr>)"
  by (simp add: grant_iam_permission_def check_permission_def getIamPolicy_def setIamPolicy_def
        next_fault_def log_error_def update_policy_def example_state_def example_policy_def
        example_args_def get_bindings_def get_members_def)

lemma distinct_map_filter_le_one:
  "distinct (map f xs) \<Longrightarrow> length (filter (\<lambda>x. f x = v) xs) \<le> 1"
proof (induction xs)
  case Nil
  then show ?case by simp
next
  case (Cons a xs)
  show ?case
  proof (cases "f a = v")
    case True
    with Cons.prems have "\<forall>x \<in> set xs. f x \<noteq> v" by (auto simp: image_iff)
    then have "filter (\<lambda>x. f x = v) xs = []" by (simp add: filter_empty_conv)
    with True show ?thesis by simp
  next
    case False
    with Cons show ?thesis by auto
  qed
qed

lemma add_member_others:
  "add_member bs member role = Inr (bs', found) \<Longrightarrow>
   filter (\<lambda>b. binding_role b = Some r) bs' = filter (\<lambda>b. binding_role b = Some r) bs
     \<or> r = role"
proof (induction bs arbitrary: bs' found)
  case Nil
  then show ?case by auto
next
  case (Cons b bs)
  then show ?case
    by (auto split: option.splits if_splits sum.splits prod.splits)
qed

lemma add_member_entries_unique:
  assumes "add_member bs member role = Inr (bs', found)"
    and "distinct (map binding_role bs)"
  shows "sum_list (map (\<lambda>b. count_list (get_members b) member)
           (filter (\<lambda>b. binding_role b = Some role) bs')) =
         (if found
          then max 1 (sum_list (map (\<lambda>b. count_list (get_members b) member)
                 (filter (\<lambda>b. binding_role b = Some role) bs)))
          else 0)"
  using assms
proof (induction bs arbitrary: bs' found)
  case Nil
  then show ?case by auto
next
  case (Cons b bs)
  show ?case
  proof (cases "binding_role b")
    case None
    with Cons.prems show ?thesis by simp
  next
    case (Some r)
    show ?thesis
    proof (cases "r = role")
      case True
      with Cons.prems(2) Some have "\<forall>x \<in> set bs. binding_role x \<noteq> Some role"
        by (auto simp: image_iff)
      then have none: "filter (\<lambda>b. binding_role b = Some role) bs = []"
        by (simp add: filter_empty_conv)
      show ?thesis
      proof (cases "member \<in> set (get_members b)")
        case m: True
        with True Some Cons.prems have "bs' = b # bs" "found" by auto
        moreover from m have "count_list (get_members b) member \<noteq> 0"
          by (simp add: count_list_0_iff)
        ultimately show ?thesis using True Some none by simp
      next
        case m: False
        with True Some Cons.prems obtain ms where ms: "binding_members b = Some ms"
          and bs': "bs' = b\<lparr>binding_members := Some (ms @ [member])\<rparr> # bs" and f: "found"
          by (auto split: option.splits)
        from m ms have "count_list ms member = 0"
          by (simp add: get_members_def count_list_0_iff)
        with True Some ms bs' f none show ?thesis by (simp add: get_members_def)
      qed
    next
      case False
      with Some Cons.prems obtain rest' where
        r: "add_member bs member role = Inr (rest', found)" and bs': "bs' = b # rest'"
        by (auto split: sum.splits prod.splits)
      from Cons.prems(2) have "distinct (map binding_role bs)" by simp
      from Cons.IH [OF r this] False Some bs' show ?thesis by simp
    qed
  qed
qed

lemma update_policy_entries_unique:
  assumes u: "update_policy p member role = Inr p'" and uq: "roles_unique p"
  shows "roles_unique p' \<and> length (role_bindings p' role) = 1 \<and>
         member_entries p' role member = max 1 (member_entries p role member) \<and>
         (\<forall>r. r \<noteq> role \<longrightarrow> role_bindings p' r = role_bindings p r)"
proof -
  from u obtain bs found where
    am: "add_member (get_bindings p) member role = Inr (bs, found)"
    by (auto simp: update_policy_def split: sum.splits)
  from uq have d: "distinct (map binding_role (get_bindings p))" by (simp add: roles_unique_def)
  note e = add_member_entries_unique [OF am d] and e0 = add_member_entries [OF am]
  have ru: "roles_unique p'" using u uq by (rule update_policy_roles_unique)
  have le: "length (role_bindings p role) \<le> 1"
    unfolding role_bindings_def using d by (rule distinct_map_filter_le_one)
  from update_policy_entries [OF u] le have one: "length (role_bindings p' role) = 1" by simp
  have others: "\<forall>r. r \<noteq> role \<longrightarrow> role_bindings p' r = role_bindings p r"
  proof (intro allI impI)
    fix r assume r: "r \<noteq> role"
    from add_member_others [OF am, of r] r
    have f: "filter (\<lambda>b. binding_role b = Some r) bs =
             filter (\<lambda>b. binding_role b = Some r) (get_bindings p)" by simp
    show "role_bindings p' r = role_bindings p r"
    proof (cases found)
      case True
      with u am have "get_bindings p' = bs" by (auto simp: update_policy_def get_bindings_def)
      with f show ?thesis by (simp add: role_bindings_def)
    next
      case False
      with u am have "get_bindings p' = bs @ [\<lparr>binding_role = Some role,
          binding_members = Some [member], binding_condition = None\<rparr>]"
        by (auto simp: update_policy_def get_bindings_def)
      with f r show ?thesis by (simp add: role_bindings_def)
    qed
  qed
  have ent: "member_entries p' role member = max 1 (member_entries p role member)"
  proof (cases found)
    case True
    with u am have "get_bindings p' = bs" by (auto simp: update_policy_def get_bindings_def)
    with e True show ?thesis by (simp add: member_entries_def role_bindings_def)
  next
    case False
    with u am have gb: "get_bindings p' = bs @ [\<lparr>binding_role = Some role,
        binding_members = Some [member], binding_condition = None\<rparr>]"
      by (auto simp: update_policy_def get_bindings_def)
    from False am have "bs = get_bindings p" by (simp add: add_member_not_found)
    with e e0 False gb show ?thesis
      by (simp add: member_entries_def role_bindings_def get_members_def)
  qed
  from ru one ent others show ?thesis by simp
qed

text \<open>
  C5. Let the project's policy have no role with two bindings, as the API returns it.
  Let a first call of \<open>grant_iam_permission\<close> return \<open>granted\<close>, and let a second
  call for the same project, principal and role follow it at once, its policy read not
  faulting. Then the second call returns \<open>already_granted\<close>, issues no write and
  leaves every policy as the first call left it. The policy the first call has written
  still has no role with two bindings and has exactly one binding for the role; the
  bindings for every other role are as before; and the principal has exactly one entry
  for the role if it had none and as many as before otherwise: no duplicate binding
  and no second member entry is ever added.
\<close>

theorem grant_twice_never_duplicates:
  assumes g1: "grant_iam_permission a project_id member role s = (res1, s1)"
    and st: "result_status res1 = granted"
    and ok: "second_read_succeeds s1"
    and g2: "grant_iam_permission a project_id member role s1 = (res2, s2)"
    and p0: "policies s project_id = Some p0"
    and uq: "roles_unique p0"
  shows "result_status res2 = already_granted \<and>
         policies s2 = policies s1 \<and> writes s2 = writes s1 \<and>
         (\<exists>p1. policies s1 project_id = Some p1 \<and>
            roles_unique p1 \<and>
            length (role_bindings p1 role) = 1 \<and>
            member_entries p1 role member = max 1 (member_entries p0 role member) \<and>
            (\<forall>r. r \<noteq> role \<longrightarrow> role_bindings p1 r = role_bindings p0 r))"
proof -
  from grant_iam_permission_granted [OF g1 st] p0 obtain p1 where
    u: "update_policy p0 member role = Inr p1"
    and p1: "policies s1 = (policies s)(project_id \<mapsto> p1)"
    by auto
  from p1 have p1': "policies s1 project_id = Some p1" by simp
  obtain x sa where g: "getIamPolicy project_id s1 = (x, sa)"
    by (cases "getIamPolicy project_id s1")
  from getIamPolicy_no_fault [of s1 project_id p1] ok p1' g have x: "x = Inr p1"
    by (simp add: second_read_succeeds_def)
  from g x have c: "check_permission project_id member role s1 = (Some True, sa)"
    by (simp add: check_permission_def update_policy_scan [OF u])
  note cf = check_permission_frame [OF c]
  from g2 c have r2: "res2 = \<lparr>result_project_id = project_id, result_status = already_granted,
        result_message = ''Already has '' @ role\<rparr>"
    and s2: "s2 = sa\<lparr>already_granted_count := already_granted_count sa + 1\<rparr>"
    by (simp_all add: grant_iam_permission_def)
  from r2 s2 cf have second: "result_status res2 = already_granted \<and>
         policies s2 = policies s1 \<and> writes s2 = writes s1"
    by (simp add: writes_def)
  from update_policy_entries_unique [OF u uq] p1'
  have "\<exists>p1. policies s1 project_id = Some p1 \<and>
            roles_unique p1 \<and>
            length (role_bindings p1 role) = 1 \<and>
            member_entries p1 role member = max 1 (member_entries p0 role member) \<and>
            (\<forall>r. r \<noteq> role \<longrightarrow> role_bindings p1 r = role_bindings p0 r)"
    by (intro exI [of _ p1]) simp
  with second show ?thesis by simp
qed

text \<open>Two runs on the example state: \<open>granted\<close>, then \<open>already_granted\<close>.\<close>

theorem grant_twice_never_duplicates_witness:
  "result_status (fst (grant_iam_permission example_args ''proj-a'' ''user:alice@example.com''
      ''roles/viewer'' example_state)) = granted \<and>
   second_read_succeeds (snd (grant_iam_permission example_args ''proj-a''
      ''user:alice@example.com'' ''roles/viewer'' example_state)) \<and>
   policies example_state ''proj-a'' = Some example_policy \<and>
   roles_unique example_policy \<and>
   result_status (fst (grant_iam_permission example_args ''proj-a'' ''user:alice@example.com''
      ''roles/viewer'' (snd (grant_iam_permission example_args ''proj-a''
      ''user:alice@example.com'' ''roles/viewer'' example_state)))) = already_granted"
proof -
  let ?run1 = "grant_iam_permission example_args ''proj-a'' ''user:alice@example.com''
      ''roles/viewer'' example_state"
  let ?run2 = "grant_iam_permission example_args ''proj-a'' ''user:alice@example.com''
      ''roles/viewer'' (snd ?run1)"
  have g1: "?run1 = (fst ?run1, snd ?run1)" by simp
  have st: "result_status (fst ?run1) = granted" by (simp add: example_grant)
  have ok: "second_read_succeeds (snd ?run1)"
    by (simp add: example_grant second_read_succeeds_def next_fault_def)
  have g2: "?run2 = (fst ?run2, snd ?run2)" by simp
  have p0: "policies example_state ''proj-a'' = Some example_policy"
    by (simp add: example_state_def)
  have uq: "roles_unique example_policy"
    by (simp add: roles_unique_def example_policy_def get_bindings_def)
  from grant_twice_never_duplicates [OF g1 st ok g2 p0 uq] st ok p0 uq show ?thesis by simp
qed

section \<open>Claims about the project enumerators\<close>

lemma collect_active_wellformed:
  "\<forall>p \<in> set ps. lifecycleState p \<noteq> None \<and> (is_active p \<longrightarrow> projectId p \<noteq> None) \<Longrightarrow>
   collect_active ps acc = Inr (acc @ map (\<lambda>p. the (projectId p)) (filter is_active ps))"
proof (induction ps arbitrary: acc)
  case Nil
  then show ?case by simp
next
  case (Cons p ps)
  then obtain st where st: "lifecycleState p = Some st" by auto
  show ?case
  proof (cases "st = ''ACTIVE''")
    case True
    with Cons.prems st obtain i where i: "projectId p = Some i" by (auto simp: is_active_def)
    from Cons.prems have "collect_active ps (acc @ [i]) =
        Inr ((acc @ [i]) @ map (\<lambda>p. the (projectId p)) (filter is_active ps))"
      by (intro Cons.IH) simp
    moreover from True st have "is_active p" by (simp add: is_active_def)
    ultimately show ?thesis using True st i by simp
  next
    case False
    from Cons.prems have "collect_active ps acc =
        Inr (acc @ map (\<lambda>p. the (projectId p)) (filter is_active ps))"
      by (intro Cons.IH) simp
    moreover from False st have "\<not> is_active p" by (simp add: is_active_def)
    ultimately show ?thesis using False st by simp
  qed
qed

lemma page_collect:
  "wellformed_page resp \<Longrightarrow>
   (case response_projects resp of None \<Rightarrow> Inr acc | Some ps \<Rightarrow> collect_active ps acc) =
     Inr (acc @ page_active_ids resp)"
  by (cases "response_projects resp")
     (simp_all add: page_active_ids_def page_projects_def wellformed_page_def
        collect_active_wellformed)

lemma list_next_token: "nextPageToken resp = None \<Longrightarrow> list_next resp = None"
  by (simp add: list_next_def)

lemma list_pages_pages_of:
  "pages_of srv req pages \<Longrightarrow> \<forall>resp \<in> set pages. wellformed_page resp \<Longrightarrow>
   list_pages srv req acc = Some (Inr (acc @ concat (map page_active_ids pages)))"
proof (induction pages arbitrary: req acc)
  case Nil
  then show ?case by simp
next
  case (Cons resp rest)
  from Cons.prems have srv: "srv req = Inr resp" and wf: "wellformed_page resp" by simp_all
  note pc = page_collect [OF wf, of acc]
  show ?case
  proof (cases "list_next resp")
    case None
    with Cons.prems have "rest = []" by simp
    with srv pc None show ?thesis
      by (subst list_pages.simps) (simp split: option.splits)
  next
    case (Some req')
    with Cons.prems have p: "pages_of srv req' rest" by simp
    from Cons.prems have "\<forall>resp \<in> set rest. wellformed_page resp" by simp
    from Cons.IH [OF p this, of "acc @ page_active_ids resp"]
    have "list_pages srv req' (acc @ page_active_ids resp) =
        Some (Inr (acc @ page_active_ids resp @ concat (map page_active_ids rest)))" by simp
    moreover from Some obtain t where "nextPageToken resp = Some t"
      by (cases "nextPageToken resp") (simp_all add: list_next_def)
    ultimately show ?thesis using srv pc Some
      by (subst list_pages.simps) simp
  qed
qed

lemma collect_active_info_wellformed:
  "\<forall>p \<in> set ps. lifecycleState p \<noteq> None \<and> (is_active p \<longrightarrow> projectId p \<noteq> None) \<Longrightarrow>
   collect_active_info ps acc = Inr (acc @ map info_of (filter is_active ps))"
proof (induction ps arbitrary: acc)
  case Nil
  then show ?case by simp
next
  case (Cons p ps)
  then obtain st where st: "lifecycleState p = Some st" by auto
  show ?case
  proof (cases "st = ''ACTIVE''")
    case True
    with Cons.prems st obtain i where i: "projectId p = Some i" by (auto simp: is_active_def)
    from Cons.prems have "collect_active_info ps (acc @ [info_of p]) =
        Inr ((acc @ [info_of p]) @ map info_of (filter is_active ps))"
      by (intro Cons.IH) simp
    moreover from True st have "is_active p" by (simp add: is_active_def)
    moreover from i have "info_of p = \<lparr>info_id = i,
        info_name = (case project_name p of None \<Rightarrow> ''UNNAMED'' | Some n \<Rightarrow> n),
        info_number = (case projectNumber p of None \<Rightarrow> ''N/A'' | Some n \<Rightarrow> n)\<rparr>"
      by (simp add: info_of_def)
    ultimately show ?thesis using True st i by simp
  next
    case False
    from Cons.prems have "collect_active_info ps acc =
        Inr (acc @ map info_of (filter is_active ps))"
      by (intro Cons.IH) simp
    moreover from False st have "\<not> is_active p" by (simp add: is_active_def)
    ultimately show ?thesis using False st by simp
  qed
qed

lemma page_collect_info:
  "wellformed_page resp \<Longrightarrow>
   (case response_projects resp of None \<Rightarrow> Inr acc | Some ps \<Rightarrow> collect_active_info ps acc) =
     Inr (acc @ page_active_infos resp)"
  by (cases "response_projects resp")
     (simp_all add: page_active_infos_def page_projects_def wellformed_page_def
        collect_active_info_wellformed)

lemma list_pages_info_pages_of:
  "pages_of srv req pages \<Longrightarrow> \<forall>resp \<in> set pages. wellformed_page resp \<Longrightarrow>
   list_pages_info srv req acc = Some (Inr (acc @ concat (map page_active_infos pages)))"
proof (induction pages arbitrary: req acc)
  case Nil
  then show ?case by simp
next
  case (Cons resp rest)
  from Cons.prems have srv: "srv req = Inr resp" and wf: "wellformed_page resp" by simp_all
  note pc = page_collect_info [OF wf, of acc]
  show ?case
  proof (cases "list_next resp")
    case None
    with Cons.prems have "rest = []" by simp
    with srv pc None show ?thesis
      by (subst list_pages_info.simps) (simp split: option.splits)
  next
    case (Some req')
    with Cons.prems have p: "pages_of srv req' rest" by simp
    from Cons.prems have "\<forall>resp \<in> set rest. wellformed_page resp" by simp
    from Cons.IH [OF p this, of "acc @ page_active_infos resp"]
    have "list_pages_info srv req' (acc @ page_active_infos resp) =
        Some (Inr (acc @ page_active_infos resp @ concat (map page_active_infos rest)))" by simp
    moreover from Some obtain t where "nextPageToken resp = Some t"
      by (cases "nextPageToken resp") (simp_all add: list_next_def)
    ultimately show ?thesis using srv pc Some
      by (subst list_pages_info.simps) simp
  qed
qed

text \<open>
  C3, as amended. When the remote listing answers with finitely many well-formed pages,
  both remote enumerators return, and they return the active projects of all pages
  sorted by identifier: the granter the sorted list of the identifiers, the lister the
  dictionaries in a stable sort by identifier. Sorting keeps every occurrence, so an
  identifier listed twice is returned twice. Whatever the listing does, a list that a
  remote enumerator returns is sorted by identifier. The file reader returns the
  trimmed non-empty lines in the order of the file, neither sorted nor deduplicated.
\<close>

theorem project_enumerators_sorted_not_deduplicated:
  "(pages_of srv (ListRequest None) pages \<and> (\<forall>resp \<in> set pages. wellformed_page resp) \<longrightarrow>
      get_all_projects srv = Some (Inr (sort (concat (map page_active_ids pages)))) \<and>
      lister_get_all_projects True srv =
        Some (Inr (sort_key info_id (concat (map page_active_infos pages))))) \<and>
   (\<forall>ps. get_all_projects srv = Some (Inr ps) \<longrightarrow> sorted ps) \<and>
   (\<forall>ps. lister_get_all_projects credentials_found srv = Some (Inr ps) \<longrightarrow>
      sorted (map info_id ps)) \<and>
   (\<forall>content. fs filename = Some content \<longrightarrow>
      get_projects_from_file fs filename =
        Inr (filter (\<lambda>p. p \<noteq> []) (map strip (file_lines content))))"
proof (intro conjI allI impI)
  assume a: "pages_of srv (ListRequest None) pages \<and> (\<forall>resp \<in> set pages. wellformed_page resp)"
  then have p: "pages_of srv (ListRequest None) pages"
    and w: "\<forall>resp \<in> set pages. wellformed_page resp" by simp_all
  from list_pages_pages_of [OF p w, of "[]"]
  show "get_all_projects srv = Some (Inr (sort (concat (map page_active_ids pages))))"
    by (simp add: get_all_projects_def)
  from list_pages_info_pages_of [OF p w, of "[]"]
  show "lister_get_all_projects True srv =
        Some (Inr (sort_key info_id (concat (map page_active_infos pages))))"
    by (simp add: lister_get_all_projects_def)
next
  fix ps assume "get_all_projects srv = Some (Inr ps)"
  then obtain collected where "ps = sort collected"
    by (auto simp: get_all_projects_def split: option.splits sum.splits)
  then show "sorted ps" by simp
next
  fix ps assume "lister_get_all_projects credentials_found srv = Some (Inr ps)"
  then obtain collected where "ps = sort_key info_id collected"
    by (auto simp: lister_get_all_projects_def split: option.splits sum.splits if_splits)
  then show "sorted (map info_id ps)" by simp
next
  fix content assume "fs filename = Some content"
  then show "get_projects_from_file fs filename =
        Inr (filter (\<lambda>p. p \<noteq> []) (map strip (file_lines content)))"
    by (rule get_projects_from_file_eq)
qed

lemma example_pages:
  "pages_of example_listing (ListRequest None) [example_page1, example_page2]"
  "\<forall>resp \<in> set [example_page1, example_page2]. wellformed_page resp"
  "concat (map page_active_ids [example_page1, example_page2]) = [''proj-b'', ''proj-a'']"
  by (simp_all add: example_listing_def example_page1_def example_page2_def list_next_def
        wellformed_page_def page_projects_def page_active_ids_def is_active_def)

text \<open>
  The example listing of two pages, and a file whose two lines are not in order.
\<close>

theorem project_enumerators_sorted_not_deduplicated_witness:
  "pages_of example_listing (ListRequest None) [example_page1, example_page2] \<and>
   wellformed_page example_page1 \<and> wellformed_page example_page2 \<and>
   get_all_projects example_listing = Some (Inr [''proj-a'', ''proj-b'']) \<and>
   get_projects_from_file [''projects.txt'' \<mapsto> ''proj-b'' @ [CHR 0x0A] @ ''proj-a'' @ [CHR 0x0A]]
     ''projects.txt'' = Inr [''proj-b'', ''proj-a'']"
  using project_enumerators_sorted_not_deduplicated
    [of example_listing "[example_page1, example_page2]" True
        "[''projects.txt'' \<mapsto> ''proj-b'' @ [CHR 0x0A] @ ''proj-a'' @ [CHR 0x0A]]"
        "''projects.txt''"]
    example_pages
  by (simp add: strip_def isspace_def)

text \<open>
  C3 as stated fails for a file: the lines \<open>proj-b\<close>, \<open>proj-a\<close>, \<open>proj-b\<close> are
  returned as they stand, which is neither sorted nor free of duplicates.
\<close>

theorem project_enumerator_counterexample:
  "get_projects_from_file
     [''projects.txt'' \<mapsto>
        ''proj-b'' @ [CHR 0x0A] @ ''proj-a'' @ [CHR 0x0A] @ ''proj-b'' @ [CHR 0x0A]]
     ''projects.txt'' = Inr [''proj-b'', ''proj-a'', ''proj-b''] \<and>
   \<not> sorted [''proj-b'', ''proj-a'', ''proj-b''] \<and>
   \<not> distinct [''proj-b'', ''proj-a'', ''proj-b'']"
  by (simp add: get_projects_from_file_def strip_def isspace_def Let_def)

end
